theory Spec2Isabelle
  imports Main "HOL-Library.Word"
begin

unbundle bit_operations_syntax

section \<open>The generator of codegen\_helpers.py\<close>

text \<open>
  The source is a Python generator: each function returns a list of lines of Ruby, the
  body of an encode or decode method of one protocol method. \<open>spec.resolveDomain\<close>
  belongs to the caller's schema object; it is taken as a function from an unresolved
  domain name to the resolved type name. A field carries the attributes the source reads.
\<close>

type_synonym spec = "string \<Rightarrow> string"

record field =
  ruby_name :: string
  domain :: string
  ignored :: bool

text \<open>
  What the raise statements of the source raise. Four of them raise a string:
  \<open>raise "Can't encode bit in genSingleEncode"\<close>, \<open>raise "Illegal domain in
  genSingleEncode", type\<close>, and \<open>raise "Can't decode bit in genSingleDecode"\<close> in both
  decode functions. Python 2.6 and later refuse a raised string with a \<open>TypeError\<close>
  (exceptions must be old-style classes or derived from BaseException, not str), so the
  message and the type are lost: \<open>PyTypeError\<close>. The last branch of the two decode
  functions raises \<open>StandardError\<close> with a message that names the type.
\<close>

datatype error = PyTypeError | StandardError string

definition illegal_domain_message :: "string \<Rightarrow> string \<Rightarrow> string" where
  "illegal_domain_message ty fn = ''Illegal domain '' @ [CHR 0x27] @ ty @ [CHR 0x27] @ '' in '' @ fn"

text \<open>Python's \<open>"%d" % n\<close> for a natural number.\<close>

definition digit :: "nat \<Rightarrow> char" where
  "digit n = ''0123456789'' ! n"

fun show_nat :: "nat \<Rightarrow> string" where
  "show_nat n = (if n < 10 then [digit n] else show_nat (n div 10) @ [digit (n mod 10)])"

declare show_nat.simps [simp del]

definition genSingleEncode :: "spec \<Rightarrow> string \<Rightarrow> string \<Rightarrow> error + string list" where
  "genSingleEncode spec cValue unresolved_domain =
    (let ty = spec unresolved_domain in
     if ty = ''shortstr'' then
       Inr [''pieces << '' @ cValue @ ''.bytesize.chr'',
            ''pieces << '' @ cValue]
     else if ty = ''longstr'' then
       Inr [''pieces << ['' @ cValue @ ''.bytesize].pack(PACK_CACHE[:N])'',
            ''pieces << '' @ cValue]
     else if ty = ''octet'' then
       Inr [''pieces << ['' @ cValue @ ''].pack(PACK_CACHE[:c])'']
     else if ty = ''short'' then
       Inr [''pieces << ['' @ cValue @ ''].pack(PACK_CACHE[:n])'']
     else if ty = ''long'' then
       Inr [''pieces << ['' @ cValue @ ''].pack(PACK_CACHE[:N])'']
     else if ty = ''longlong'' then
       Inr [''pieces << AMQ::Hacks.pack_64_big_endian('' @ cValue @ '')'']
     else if ty = ''timestamp'' then
       Inr [''pieces << AMQ::Hacks.pack_64_big_endian('' @ cValue @ '')'']
     else if ty = ''bit'' then
       Inl PyTypeError
     else if ty = ''table'' then
       Inr [''pieces << AMQ::Protocol::Table.encode('' @ cValue @ '')'']
     else
       Inl PyTypeError)"

text \<open>
  \<open>genSingleDecode\<close> reads \<open>field.ruby_name\<close> and \<open>field.domain\<close>. For the field named
  \<open>known_hosts\<close> it also prints the field to standard error; that line adds nothing to
  the returned buffer and is left out.
\<close>

definition genSingleDecode :: "spec \<Rightarrow> field \<Rightarrow> error + string list" where
  "genSingleDecode spec f =
    (let cLvalue = ruby_name f;
         unresolved_domain = domain f;
         ty = spec unresolved_domain in
     if ty = ''shortstr'' then
       Inr [''length = data[offset, 2].unpack(PACK_CACHE[:c])[0]'',
            ''offset += 1'',
            cLvalue @ '' = data[offset, length]'',
            ''offset += length'']
     else if ty = ''longstr'' then
       Inr [''length = data[offset, 5].unpack(PACK_CACHE[:N]).first'',
            ''offset += 4'',
            cLvalue @ '' = data[offset, length]'',
            ''offset += length'']
     else if ty = ''octet'' then
       Inr [cLvalue @ '' = data[offset, 1].unpack(PACK_CACHE[:c]).first'',
            ''offset += 1'']
     else if ty = ''short'' then
       Inr [cLvalue @ '' = data[offset, 3].unpack(PACK_CACHE[:n]).first'',
            ''offset += 2'']
     else if ty = ''long'' then
       Inr [cLvalue @ '' = data[offset, 5].unpack(PACK_CACHE[:N]).first'',
            ''offset += 4'']
     else if ty = ''longlong'' then
       Inr [cLvalue @ '' = AMQ::Hacks.unpack_64_big_endian(data[offset, 8]).first'',
            ''offset += 8'']
     else if ty = ''timestamp'' then
       Inr [cLvalue @ '' = data[offset, 7].unpack(PACK_CACHE[:N2]).first'',
            ''offset += 8'']
     else if ty = ''bit'' then
       Inl PyTypeError
     else if ty = ''table'' then
       Inr [''table_length = Table.length(data[offset, 5])'',
            cLvalue @ '' = Table.decode(data[offset, table_length - offset + 1])'']
     else
       Inl (StandardError (illegal_domain_message ty ''genSingleDecode'')))"

definition genSingleSimpleDecode :: "spec \<Rightarrow> field \<Rightarrow> error + string list" where
  "genSingleSimpleDecode spec f =
    (let ty = spec (domain f) in
     if ty = ''shortstr'' then Inr [''data'']
     else if ty = ''longstr'' then Inr [''data'']
     else if ty = ''octet'' then Inr [''data.unpack(PACK_CACHE[:c]).first'']
     else if ty = ''short'' then Inr [''data.unpack(PACK_CACHE[:n]).first'']
     else if ty = ''long'' then Inr [''data.unpack(PACK_CACHE[:N]).first'']
     else if ty = ''longlong'' then Inr [''AMQ::Hacks.unpack_64_big_endian(data).first'']
     else if ty = ''timestamp'' then Inr [''Time.at(data.unpack(PACK_CACHE[:N2]).last)'']
     else if ty = ''bit'' then Inl PyTypeError
     else if ty = ''table'' then Inr [''Table.decode(data)'']
     else Inl (StandardError (illegal_domain_message ty ''genSingleSimpleDecode'')))"

text \<open>
  \<open>genEncodeMethodDefinition\<close>: the loop over \<open>m.arguments\<close> carries \<open>bit_index\<close>
  (\<open>None\<close> outside a run of bit fields) and the buffer built so far. \<open>finishBits\<close> is the
  nested function of the source; it reads both variables where it is called.
\<close>

definition finishBits :: "nat option \<Rightarrow> string list \<Rightarrow> string list" where
  "finishBits bit_index buffer =
    (if bit_index \<noteq> None then buffer @ [''pieces << [bit_buffer].pack(PACK_CACHE[:c])'']
     else buffer)"

fun encode_loop :: "spec \<Rightarrow> field list \<Rightarrow> nat option \<Rightarrow> string list \<Rightarrow> error + string list" where
  "encode_loop spec [] bit_index buffer = Inr (finishBits bit_index buffer)"
| "encode_loop spec (f # fs) bit_index buffer =
    (if spec (domain f) = ''bit'' then
       let (i1, b1) = (case bit_index of
                         None \<Rightarrow> (0, buffer @ [''bit_buffer = 0''])
                       | Some i \<Rightarrow> (i, buffer));
           (i2, b2) = (if i1 \<ge> 8
                       then (0, finishBits (Some i1) b1 @ [''bit_buffer = 0''])
                       else (i1, b1));
           b3 = b2 @ [''bit_buffer = bit_buffer | (1 << '' @ show_nat i2 @ '') if '' @ ruby_name f]
       in encode_loop spec fs (Some (i2 + 1)) b3
     else
       (case genSingleEncode spec (ruby_name f) (domain f) of
          Inl e \<Rightarrow> Inl e
        | Inr lines \<Rightarrow> encode_loop spec fs None (finishBits bit_index buffer @ lines)))"

definition genEncodeMethodDefinition :: "spec \<Rightarrow> field list \<Rightarrow> error + string list" where
  "genEncodeMethodDefinition spec arguments = encode_loop spec arguments None []"

text \<open>
  \<open>genDecodeMethodDefinition\<close>: the three lines of a bit field, the assignment of the
  field among them, are all inside \<open>if bitindex == 0\<close>.
\<close>

fun decode_loop :: "spec \<Rightarrow> field list \<Rightarrow> nat option \<Rightarrow> string list \<Rightarrow> error + string list" where
  "decode_loop spec [] bitindex buffer = Inr buffer"
| "decode_loop spec (f # fs) bitindex buffer =
    (if spec (domain f) = ''bit'' then
       let i1 = (case bitindex of None \<Rightarrow> 0 | Some i \<Rightarrow> i);
           i2 = (if i1 \<ge> 8 then 0 else i1);
           b1 = (if i2 = 0 then
                   buffer @ [''bit_buffer = data[offset, 2].unpack(PACK_CACHE[:c]).first'',
                             ''offset += 1'',
                             ruby_name f @ '' = (bit_buffer & (1 << '' @ show_nat i2 @ '')) != 0'']
                 else buffer)
       in decode_loop spec fs (Some (i2 + 1)) b1
     else
       (case genSingleDecode spec f of
          Inl e \<Rightarrow> Inl e
        | Inr lines \<Rightarrow> decode_loop spec fs None (buffer @ lines)))"

definition genDecodeMethodDefinition :: "spec \<Rightarrow> field list \<Rightarrow> error + string list" where
  "genDecodeMethodDefinition spec arguments = decode_loop spec arguments None []"

text \<open>The nine domains the source's type switch names.\<close>

definition recognized :: "string set" where
  "recognized = {''shortstr'', ''longstr'', ''octet'', ''short'', ''long'', ''longlong'',
                 ''timestamp'', ''bit'', ''table''}"

section \<open>The emitted lines as Ruby syntax\<close>

text \<open>
  Every line the generator emits is one of four statement forms over a small expression
  language. \<open>render_stmt\<close> gives the text of a statement; the generator is restated over
  statements (\<open>genSingleEncode_stmts\<close> and the others below) and shown to render to
  exactly the lines of the functions above.
\<close>

datatype binop = Add | Sub | BitOr | BitAnd | Shl | Neq

datatype expr =
    Var string
  | Lit nat
  | Paren expr
  | Bin expr binop expr
  | Slice expr expr expr
  | Unpack expr string
  | PackOne expr string
  | First expr
  | At0 expr
  | Bytesize expr
  | Chr expr
  | Call string expr

datatype stmt =
    Assign string expr
  | AddAssign string expr
  | Push string expr
  | AssignIf string expr expr

fun render_binop :: "binop \<Rightarrow> string" where
  "render_binop Add = ''+''"
| "render_binop Sub = ''-''"
| "render_binop BitOr = ''|''"
| "render_binop BitAnd = ''&''"
| "render_binop Shl = ''<<''"
| "render_binop Neq = ''!=''"

fun render :: "expr \<Rightarrow> string" where
  "render (Var x) = x"
| "render (Lit n) = show_nat n"
| "render (Paren e) = ''('' @ render e @ '')''"
| "render (Bin a oper b) = render a @ '' '' @ render_binop oper @ '' '' @ render b"
| "render (Slice e a b) = render e @ ''['' @ render a @ '', '' @ render b @ '']''"
| "render (Unpack e k) = render e @ ''.unpack(PACK_CACHE[:'' @ k @ ''])''"
| "render (PackOne e k) = ''['' @ render e @ ''].pack(PACK_CACHE[:'' @ k @ ''])''"
| "render (First e) = render e @ ''.first''"
| "render (At0 e) = render e @ ''[0]''"
| "render (Bytesize e) = render e @ ''.bytesize''"
| "render (Chr e) = render e @ ''.chr''"
| "render (Call g e) = g @ ''('' @ render e @ '')''"

fun render_stmt :: "stmt \<Rightarrow> string" where
  "render_stmt (Assign x e) = x @ '' = '' @ render e"
| "render_stmt (AddAssign x e) = x @ '' += '' @ render e"
| "render_stmt (Push x e) = x @ '' << '' @ render e"
| "render_stmt (AssignIf x e c) = x @ '' = '' @ render e @ '' if '' @ render c"

definition genSingleEncode_stmts :: "spec \<Rightarrow> string \<Rightarrow> string \<Rightarrow> error + stmt list" where
  "genSingleEncode_stmts spec cValue unresolved_domain =
    (let ty = spec unresolved_domain in
     if ty = ''shortstr'' then
       Inr [Push ''pieces'' (Chr (Bytesize (Var cValue))),
            Push ''pieces'' (Var cValue)]
     else if ty = ''longstr'' then
       Inr [Push ''pieces'' (PackOne (Bytesize (Var cValue)) ''N''),
            Push ''pieces'' (Var cValue)]
     else if ty = ''octet'' then
       Inr [Push ''pieces'' (PackOne (Var cValue) ''c'')]
     else if ty = ''short'' then
       Inr [Push ''pieces'' (PackOne (Var cValue) ''n'')]
     else if ty = ''long'' then
       Inr [Push ''pieces'' (PackOne (Var cValue) ''N'')]
     else if ty = ''longlong'' then
       Inr [Push ''pieces'' (Call ''AMQ::Hacks.pack_64_big_endian'' (Var cValue))]
     else if ty = ''timestamp'' then
       Inr [Push ''pieces'' (Call ''AMQ::Hacks.pack_64_big_endian'' (Var cValue))]
     else if ty = ''bit'' then
       Inl PyTypeError
     else if ty = ''table'' then
       Inr [Push ''pieces'' (Call ''AMQ::Protocol::Table.encode'' (Var cValue))]
     else
       Inl PyTypeError)"

definition window :: "nat \<Rightarrow> expr" where
  "window n = Slice (Var ''data'') (Var ''offset'') (Lit n)"

definition genSingleDecode_stmts :: "spec \<Rightarrow> field \<Rightarrow> error + stmt list" where
  "genSingleDecode_stmts spec f =
    (let cLvalue = ruby_name f;
         unresolved_domain = domain f;
         ty = spec unresolved_domain in
     if ty = ''shortstr'' then
       Inr [Assign ''length'' (At0 (Unpack (window 2) ''c'')),
            AddAssign ''offset'' (Lit 1),
            Assign cLvalue (Slice (Var ''data'') (Var ''offset'') (Var ''length'')),
            AddAssign ''offset'' (Var ''length'')]
     else if ty = ''longstr'' then
       Inr [Assign ''length'' (First (Unpack (window 5) ''N'')),
            AddAssign ''offset'' (Lit 4),
            Assign cLvalue (Slice (Var ''data'') (Var ''offset'') (Var ''length'')),
            AddAssign ''offset'' (Var ''length'')]
     else if ty = ''octet'' then
       Inr [Assign cLvalue (First (Unpack (window 1) ''c'')),
            AddAssign ''offset'' (Lit 1)]
     else if ty = ''short'' then
       Inr [Assign cLvalue (First (Unpack (window 3) ''n'')),
            AddAssign ''offset'' (Lit 2)]
     else if ty = ''long'' then
       Inr [Assign cLvalue (First (Unpack (window 5) ''N'')),
            AddAssign ''offset'' (Lit 4)]
     else if ty = ''longlong'' then
       Inr [Assign cLvalue (First (Call ''AMQ::Hacks.unpack_64_big_endian'' (window 8))),
            AddAssign ''offset'' (Lit 8)]
     else if ty = ''timestamp'' then
       Inr [Assign cLvalue (First (Unpack (window 7) ''N2'')),
            AddAssign ''offset'' (Lit 8)]
     else if ty = ''bit'' then
       Inl PyTypeError
     else if ty = ''table'' then
       Inr [Assign ''table_length'' (Call ''Table.length'' (window 5)),
            Assign cLvalue
              (Call ''Table.decode''
                 (Slice (Var ''data'') (Var ''offset'')
                    (Bin (Bin (Var ''table_length'') Sub (Var ''offset'')) Add (Lit 1))))]
     else
       Inl (StandardError (illegal_domain_message ty ''genSingleDecode'')))"

definition flush_stmt :: stmt where
  "flush_stmt = Push ''pieces'' (PackOne (Var ''bit_buffer'') ''c'')"

definition finishBits_stmts :: "nat option \<Rightarrow> stmt list \<Rightarrow> stmt list" where
  "finishBits_stmts bit_index buffer =
    (if bit_index \<noteq> None then buffer @ [flush_stmt] else buffer)"

definition set_bit_stmt :: "nat \<Rightarrow> string \<Rightarrow> stmt" where
  "set_bit_stmt i x =
    AssignIf ''bit_buffer''
      (Bin (Var ''bit_buffer'') BitOr (Paren (Bin (Lit 1) Shl (Lit i)))) (Var x)"

fun encode_loop_stmts :: "spec \<Rightarrow> field list \<Rightarrow> nat option \<Rightarrow> stmt list \<Rightarrow> error + stmt list" where
  "encode_loop_stmts spec [] bit_index buffer = Inr (finishBits_stmts bit_index buffer)"
| "encode_loop_stmts spec (f # fs) bit_index buffer =
    (if spec (domain f) = ''bit'' then
       let (i1, b1) = (case bit_index of
                         None \<Rightarrow> (0, buffer @ [Assign ''bit_buffer'' (Lit 0)])
                       | Some i \<Rightarrow> (i, buffer));
           (i2, b2) = (if i1 \<ge> 8
                       then (0, finishBits_stmts (Some i1) b1 @ [Assign ''bit_buffer'' (Lit 0)])
                       else (i1, b1));
           b3 = b2 @ [set_bit_stmt i2 (ruby_name f)]
       in encode_loop_stmts spec fs (Some (i2 + 1)) b3
     else
       (case genSingleEncode_stmts spec (ruby_name f) (domain f) of
          Inl e \<Rightarrow> Inl e
        | Inr lines \<Rightarrow> encode_loop_stmts spec fs None (finishBits_stmts bit_index buffer @ lines)))"

definition genEncodeMethodDefinition_stmts :: "spec \<Rightarrow> field list \<Rightarrow> error + stmt list" where
  "genEncodeMethodDefinition_stmts spec arguments = encode_loop_stmts spec arguments None []"

definition test_bit_stmt :: "nat \<Rightarrow> string \<Rightarrow> stmt" where
  "test_bit_stmt i x =
    Assign x (Bin (Paren (Bin (Var ''bit_buffer'') BitAnd (Paren (Bin (Lit 1) Shl (Lit i)))))
                Neq (Lit 0))"

fun decode_loop_stmts :: "spec \<Rightarrow> field list \<Rightarrow> nat option \<Rightarrow> stmt list \<Rightarrow> error + stmt list" where
  "decode_loop_stmts spec [] bitindex buffer = Inr buffer"
| "decode_loop_stmts spec (f # fs) bitindex buffer =
    (if spec (domain f) = ''bit'' then
       let i1 = (case bitindex of None \<Rightarrow> 0 | Some i \<Rightarrow> i);
           i2 = (if i1 \<ge> 8 then 0 else i1);
           b1 = (if i2 = 0 then
                   buffer @ [Assign ''bit_buffer'' (First (Unpack (window 2) ''c'')),
                             AddAssign ''offset'' (Lit 1),
                             test_bit_stmt i2 (ruby_name f)]
                 else buffer)
       in decode_loop_stmts spec fs (Some (i2 + 1)) b1
     else
       (case genSingleDecode_stmts spec f of
          Inl e \<Rightarrow> Inl e
        | Inr lines \<Rightarrow> decode_loop_stmts spec fs None (buffer @ lines)))"

definition genDecodeMethodDefinition_stmts :: "spec \<Rightarrow> field list \<Rightarrow> error + stmt list" where
  "genDecodeMethodDefinition_stmts spec arguments = decode_loop_stmts spec arguments None []"

definition render_lines :: "error + stmt list \<Rightarrow> error + string list" where
  "render_lines r = (case r of Inl e \<Rightarrow> Inl e | Inr ss \<Rightarrow> Inr (map render_stmt ss))"

section \<open>What the emitted Ruby computes\<close>

text \<open>
  The emitted lines run inside a Ruby method. Their meaning is given over the values the
  lines handle: \<open>nil\<close>, booleans, integers (unbounded in Ruby), binary strings and arrays.
  A Ruby exception is a value of \<open>exn\<close>. \<open>Unmodelled\<close> marks a receiver or directive
  this development gives no meaning to; no theorem below rests on it.
\<close>

type_synonym byte = "8 word"

datatype rval = RNil | RBool bool | RInt int | RStr "byte list" | RArr "rval list"

datatype exn = NameError | NoMethodError | TypeError | RangeError | Raised string | Unmodelled

text \<open>
  The emitted code names Ruby code of the library that is not part of this source: the
  table \<open>PACK_CACHE\<close>, indexed by a symbol and yielding the directive string handed to
  \<open>pack\<close> and \<open>unpack\<close>, and the functions \<open>AMQ::Hacks.pack_64_big_endian\<close>,
  \<open>AMQ::Hacks.unpack_64_big_endian\<close>, \<open>AMQ::Protocol::Table.encode\<close>, \<open>Table.length\<close>
  and \<open>Table.decode\<close>. Both are parameters: \<open>PACK_CACHE L k\<close> is the directive stored
  under \<open>:k\<close>, and \<open>lib_call L g v\<close> is the result of calling the function named \<open>g\<close> on
  \<open>v\<close>.
\<close>

record ruby_lib =
  PACK_CACHE :: "string \<Rightarrow> string"
  lib_call :: "string \<Rightarrow> rval \<Rightarrow> exn + rval"

type_synonym env = "string \<rightharpoonup> rval"

fun truthy :: "rval \<Rightarrow> bool" where
  "truthy RNil = False"
| "truthy (RBool b) = b"
| "truthy (RInt i) = True"
| "truthy (RStr s) = True"
| "truthy (RArr xs) = True"

text \<open>
  \<open>String#unpack\<close> for the directives \<open>c\<close> (signed 8-bit), \<open>C\<close> (unsigned 8-bit), \<open>n\<close>
  (unsigned 16-bit, big-endian), \<open>N\<close> (unsigned 32-bit, big-endian) and \<open>N2\<close> (two of
  them). A directive that finds too few bytes yields \<open>nil\<close> in its place.
\<close>

definition big_endian :: "byte list \<Rightarrow> nat" where
  "big_endian bs = foldl (\<lambda>acc b. acc * 256 + unat b) 0 bs"

definition unpack_uint :: "nat \<Rightarrow> byte list \<Rightarrow> rval" where
  "unpack_uint w s = (if length s < w then RNil else RInt (int (big_endian (take w s))))"

definition unpack :: "string \<Rightarrow> byte list \<Rightarrow> exn + rval" where
  "unpack d s =
    (if d = ''c'' then Inr (RArr [case s of [] \<Rightarrow> RNil | b # rest \<Rightarrow> RInt (sint b)])
     else if d = ''C'' then Inr (RArr [unpack_uint 1 s])
     else if d = ''n'' then Inr (RArr [unpack_uint 2 s])
     else if d = ''N'' then Inr (RArr [unpack_uint 4 s])
     else if d = ''N2'' then Inr (RArr [unpack_uint 4 s, unpack_uint 4 (drop 4 s)])
     else Inl Unmodelled)"

text \<open>
  \<open>Array#pack\<close> of a one-element array for the integer directives: the low 8, 16 or 32
  bits of the integer, most significant byte first; an element that is not an integer is
  a \<open>TypeError\<close>.
\<close>

definition to_bytes :: "nat \<Rightarrow> int \<Rightarrow> byte list" where
  "to_bytes w i = map (\<lambda>k. word_of_int (i div 256 ^ k)) (rev [0..<w])"

definition pack :: "string \<Rightarrow> rval \<Rightarrow> exn + rval" where
  "pack d v =
    (if d = ''c'' \<or> d = ''C'' \<or> d = ''n'' \<or> d = ''N'' then
       (case v of
          RInt i \<Rightarrow> Inr (RStr (to_bytes (if d = ''n'' then 2 else if d = ''N'' then 4 else 1) i))
        | _ \<Rightarrow> Inl TypeError)
     else Inl Unmodelled)"

text \<open>
  \<open>String#[start, length]\<close>: \<open>nil\<close> for a negative length or a start outside the string
  (a negative start counts from the end; a start equal to the size gives the empty
  string), otherwise at most \<open>length\<close> bytes from \<open>start\<close>.
\<close>

definition substr :: "byte list \<Rightarrow> int \<Rightarrow> int \<Rightarrow> rval" where
  "substr s start len =
    (if len < 0 then RNil
     else let st = (if start < 0 then start + int (length s) else start) in
       if st < 0 \<or> int (length s) < st then RNil
       else RStr (take (nat len) (drop (nat st) s)))"

fun slice_op :: "rval \<Rightarrow> rval \<Rightarrow> rval \<Rightarrow> exn + rval" where
  "slice_op (RStr s) (RInt i) (RInt j) = Inr (substr s i j)"
| "slice_op (RStr s) a b = Inl TypeError"
| "slice_op RNil a b = Inl NoMethodError"
| "slice_op (RBool c) a b = Inl NoMethodError"
| "slice_op r a b = Inl Unmodelled"

fun unpack_op :: "string \<Rightarrow> rval \<Rightarrow> exn + rval" where
  "unpack_op d (RStr s) = unpack d s"
| "unpack_op d r = Inl NoMethodError"

fun first_op :: "rval \<Rightarrow> exn + rval" where
  "first_op (RArr xs) = Inr (case xs of [] \<Rightarrow> RNil | x # rest \<Rightarrow> x)"
| "first_op r = Inl NoMethodError"

fun at0_op :: "rval \<Rightarrow> exn + rval" where
  "at0_op (RArr xs) = Inr (case xs of [] \<Rightarrow> RNil | x # rest \<Rightarrow> x)"
| "at0_op RNil = Inl NoMethodError"
| "at0_op (RBool b) = Inl NoMethodError"
| "at0_op r = Inl Unmodelled"

fun bytesize_op :: "rval \<Rightarrow> exn + rval" where
  "bytesize_op (RStr s) = Inr (RInt (int (length s)))"
| "bytesize_op r = Inl NoMethodError"

text \<open>\<open>Integer#chr\<close>: the one-byte string for 0 to 255, a \<open>RangeError\<close> outside.\<close>

fun chr_op :: "rval \<Rightarrow> exn + rval" where
  "chr_op (RInt i) = (if 0 \<le> i \<and> i \<le> 255 then Inr (RStr [word_of_int i]) else Inl RangeError)"
| "chr_op (RStr s) = Inl Unmodelled"
| "chr_op r = Inl NoMethodError"

fun add_op :: "rval \<Rightarrow> rval \<Rightarrow> exn + rval" where
  "add_op (RInt a) (RInt b) = Inr (RInt (a + b))"
| "add_op (RInt a) r = Inl TypeError"
| "add_op (RStr a) (RStr b) = Inr (RStr (a @ b))"
| "add_op (RStr a) r = Inl TypeError"
| "add_op (RArr a) (RArr b) = Inr (RArr (a @ b))"
| "add_op (RArr a) r = Inl TypeError"
| "add_op l r = Inl NoMethodError"

fun sub_op :: "rval \<Rightarrow> rval \<Rightarrow> exn + rval" where
  "sub_op (RInt a) (RInt b) = Inr (RInt (a - b))"
| "sub_op (RInt a) r = Inl TypeError"
| "sub_op (RArr a) r = Inl Unmodelled"
| "sub_op l r = Inl NoMethodError"

fun or_op :: "rval \<Rightarrow> rval \<Rightarrow> exn + rval" where
  "or_op (RInt a) (RInt b) = Inr (RInt (a OR b))"
| "or_op (RInt a) r = Inl TypeError"
| "or_op RNil r = Inr (RBool (truthy r))"
| "or_op (RBool c) r = Inr (RBool (c \<or> truthy r))"
| "or_op (RStr s) r = Inl NoMethodError"
| "or_op (RArr a) r = Inl Unmodelled"

fun and_op :: "rval \<Rightarrow> rval \<Rightarrow> exn + rval" where
  "and_op (RInt a) (RInt b) = Inr (RInt (a AND b))"
| "and_op (RInt a) r = Inl TypeError"
| "and_op RNil r = Inr (RBool False)"
| "and_op (RBool c) r = Inr (RBool (c \<and> truthy r))"
| "and_op (RStr s) r = Inl NoMethodError"
| "and_op (RArr a) r = Inl Unmodelled"

fun shl_op :: "rval \<Rightarrow> rval \<Rightarrow> exn + rval" where
  "shl_op (RInt a) (RInt b) =
     Inr (RInt (if 0 \<le> b then a * 2 ^ nat b else a div 2 ^ nat (- b)))"
| "shl_op (RInt a) r = Inl TypeError"
| "shl_op RNil r = Inl NoMethodError"
| "shl_op (RBool c) r = Inl NoMethodError"
| "shl_op l r = Inl Unmodelled"

fun binop_sem :: "binop \<Rightarrow> rval \<Rightarrow> rval \<Rightarrow> exn + rval" where
  "binop_sem Add = add_op"
| "binop_sem Sub = sub_op"
| "binop_sem BitOr = or_op"
| "binop_sem BitAnd = and_op"
| "binop_sem Shl = shl_op"
| "binop_sem Neq = (\<lambda>a b. Inr (RBool (a \<noteq> b)))"

text \<open>
  Receiver and arguments are evaluated left to right; the first exception ends the
  evaluation.
\<close>

definition lift1 :: "(rval \<Rightarrow> exn + rval) \<Rightarrow> exn + rval \<Rightarrow> exn + rval" where
  "lift1 g r = (case r of Inl e \<Rightarrow> Inl e | Inr v \<Rightarrow> g v)"

definition lift2 :: "(rval \<Rightarrow> rval \<Rightarrow> exn + rval) \<Rightarrow> exn + rval \<Rightarrow> exn + rval \<Rightarrow> exn + rval" where
  "lift2 g r1 r2 = (case r1 of Inl e \<Rightarrow> Inl e | Inr a \<Rightarrow> lift1 (g a) r2)"

definition lift3 ::
  "(rval \<Rightarrow> rval \<Rightarrow> rval \<Rightarrow> exn + rval) \<Rightarrow> exn + rval \<Rightarrow> exn + rval \<Rightarrow> exn + rval \<Rightarrow> exn + rval" where
  "lift3 g r1 r2 r3 = (case r1 of Inl e \<Rightarrow> Inl e | Inr a \<Rightarrow> lift2 (g a) r2 r3)"

fun eval :: "ruby_lib \<Rightarrow> env \<Rightarrow> expr \<Rightarrow> exn + rval" where
  "eval L env (Var x) = (case env x of None \<Rightarrow> Inl NameError | Some v \<Rightarrow> Inr v)"
| "eval L env (Lit n) = Inr (RInt (int n))"
| "eval L env (Paren e) = eval L env e"
| "eval L env (Bin a oper b) = lift2 (binop_sem oper) (eval L env a) (eval L env b)"
| "eval L env (Slice e a b) = lift3 slice_op (eval L env e) (eval L env a) (eval L env b)"
| "eval L env (Unpack e k) = lift1 (unpack_op (PACK_CACHE L k)) (eval L env e)"
| "eval L env (PackOne e k) = lift1 (pack (PACK_CACHE L k)) (eval L env e)"
| "eval L env (First e) = lift1 first_op (eval L env e)"
| "eval L env (At0 e) = lift1 at0_op (eval L env e)"
| "eval L env (Bytesize e) = lift1 bytesize_op (eval L env e)"
| "eval L env (Chr e) = lift1 chr_op (eval L env e)"
| "eval L env (Call g e) = lift1 (lib_call L g) (eval L env e)"

text \<open>
  Statements. Ruby makes a local variable exist, with value \<open>nil\<close>, from the assignment
  that first names it, before the right-hand side (or the condition of a trailing \<open>if\<close>)
  is evaluated: \<open>declared\<close>. \<open>x += e\<close> is \<open>x = x + e\<close>. \<open>x << e\<close> is modelled for an
  array \<open>x\<close>, which it extends by one element.
\<close>

definition declared :: "string \<Rightarrow> env \<Rightarrow> env" where
  "declared x env = (case env x of None \<Rightarrow> env(x \<mapsto> RNil) | Some v \<Rightarrow> env)"

fun push_op :: "rval \<Rightarrow> rval \<Rightarrow> exn + rval" where
  "push_op (RArr xs) v = Inr (RArr (xs @ [v]))"
| "push_op RNil v = Inl NoMethodError"
| "push_op (RBool b) v = Inl NoMethodError"
| "push_op r v = Inl Unmodelled"

definition assign :: "string \<Rightarrow> exn + rval \<Rightarrow> env \<Rightarrow> exn + env" where
  "assign x r env = (case r of Inl e \<Rightarrow> Inl e | Inr v \<Rightarrow> Inr (env(x \<mapsto> v)))"

fun exec :: "ruby_lib \<Rightarrow> stmt \<Rightarrow> env \<Rightarrow> exn + env" where
  "exec L (Assign x e) env = assign x (eval L (declared x env) e) env"
| "exec L (AddAssign x e) env = assign x (eval L (declared x env) (Bin (Var x) Add e)) env"
| "exec L (Push x e) env = assign x (lift2 push_op (eval L env (Var x)) (eval L env e)) env"
| "exec L (AssignIf x e c) env =
    (case eval L (declared x env) c of
       Inl er \<Rightarrow> Inl er
     | Inr cv \<Rightarrow> if truthy cv then assign x (eval L (declared x env) e) env
                else Inr (declared x env))"

fun run :: "ruby_lib \<Rightarrow> stmt list \<Rightarrow> env \<Rightarrow> exn + env" where
  "run L [] env = Inr env"
| "run L (s # ss) env = (case exec L s env of Inl e \<Rightarrow> Inl e | Inr env' \<Rightarrow> run L ss env')"

text \<open>
  Generating a method body and running it: the generator may fail (\<open>GenError\<close>), the
  generated lines may raise (\<open>Raises\<close>), or they run to the end (\<open>Returns\<close>).
\<close>

datatype outcome = GenError error | Raises exn | Returns env

definition run_generated :: "ruby_lib \<Rightarrow> error + stmt list \<Rightarrow> env \<Rightarrow> outcome" where
  "run_generated L g env =
    (case g of
       Inl e \<Rightarrow> GenError e
     | Inr ss \<Rightarrow> (case run L ss env of Inl x \<Rightarrow> Raises x | Inr env' \<Rightarrow> Returns env'))"

text \<open>
  An encode method starts with the field values and an array \<open>pieces\<close>; a decode method
  starts with the buffer \<open>data\<close> and the cursor \<open>offset\<close> at 0.
\<close>

definition encode_method :: "ruby_lib \<Rightarrow> spec \<Rightarrow> field list \<Rightarrow> env \<Rightarrow> outcome" where
  "encode_method L spec arguments values =
    run_generated L (genEncodeMethodDefinition_stmts spec arguments)
      (values(''pieces'' \<mapsto> RArr []))"

definition decode_method :: "ruby_lib \<Rightarrow> spec \<Rightarrow> field list \<Rightarrow> byte list \<Rightarrow> outcome" where
  "decode_method L spec arguments buf =
    run_generated L (genDecodeMethodDefinition_stmts spec arguments)
      [''data'' \<mapsto> RStr buf, ''offset'' \<mapsto> RInt 0]"

text \<open>What a run leaves behind: the value of a variable, the exception, the buffer.\<close>

definition returned :: "outcome \<Rightarrow> string \<Rightarrow> rval option" where
  "returned out x = (case out of Returns env \<Rightarrow> env x | _ \<Rightarrow> None)"

definition raised :: "outcome \<Rightarrow> exn option" where
  "raised out = (case out of Raises x \<Rightarrow> Some x | _ \<Rightarrow> None)"

fun joined :: "rval list \<Rightarrow> byte list option" where
  "joined [] = Some []"
| "joined (RStr s # rest) = (case joined rest of None \<Rightarrow> None | Some t \<Rightarrow> Some (s @ t))"
| "joined (v # rest) = None"

definition buffer_of :: "outcome \<Rightarrow> byte list option" where
  "buffer_of out = (case returned out ''pieces'' of Some (RArr ps) \<Rightarrow> joined ps | _ \<Rightarrow> None)"

text \<open>
  A library instance for concrete runs. The keys the emitted code uses, \<open>:c\<close>, \<open>:n\<close>,
  \<open>:N\<close> and \<open>:N2\<close>, spell Ruby pack directives; in this instance each key holds the
  directive it spells. \<open>Table.length\<close> reads the 4-byte big-endian length that starts an
  encoded table and \<open>Table.decode\<close> hands back the bytes it was given; the other
  functions are not provided.
\<close>

definition directive_lib :: ruby_lib where
  "directive_lib =
    \<lparr>PACK_CACHE = (\<lambda>k. k),
     lib_call = (\<lambda>g v.
       if g = ''Table.length'' then
         (case v of RStr s \<Rightarrow> Inr (unpack_uint 4 s) | _ \<Rightarrow> Inl NoMethodError)
       else if g = ''Table.decode'' then Inr v
       else Inl Unmodelled)\<rparr>"

definition fld :: "string \<Rightarrow> string \<Rightarrow> field" where
  "fld n d = \<lparr>ruby_name = n, domain = d, ignored = False\<rparr>"

section \<open>The packing of a bit run, as the specification words it\<close>

text \<open>
  The specification packs a run of booleans into octets, eight to an octet, the first
  boolean of each group in bit 0: \<open>bits_value\<close> is the value of one group, least
  significant bit first; \<open>groups_of_8\<close> cuts the run into groups, the last one shorter
  when the length is no multiple of 8, and no group for an empty run.
  \<open>field_bits\<close> reads the booleans of a run off the field values, by Ruby's truth of a
  value.
\<close>

fun bits_value :: "bool list \<Rightarrow> nat" where
  "bits_value [] = 0"
| "bits_value (b # bs) = (if b then 1 else 0) + 2 * bits_value bs"

fun groups_of_8 :: "'a list \<Rightarrow> 'a list list" where
  "groups_of_8 xs = (if xs = [] then [] else take 8 xs # groups_of_8 (drop 8 xs))"

declare groups_of_8.simps [simp del]

definition spec_bit_run_octets :: "bool list \<Rightarrow> byte list" where
  "spec_bit_run_octets bs = map (\<lambda>g. of_nat (bits_value g)) (groups_of_8 bs)"

definition field_bits :: "env \<Rightarrow> field list \<Rightarrow> bool list" where
  "field_bits env fs =
    map (\<lambda>f. case env (ruby_name f) of Some v \<Rightarrow> truthy v | None \<Rightarrow> False) fs"

section \<open>The statements render to the generated lines\<close>

lemma show_nat_digit: "n < 10 \<Longrightarrow> show_nat n = [digit n]"
  by (simp add: show_nat.simps)

lemma render_lines_simps [simp]:
  "render_lines (Inl e) = Inl e" "render_lines (Inr ss) = Inr (map render_stmt ss)"
  by (simp_all add: render_lines_def)

lemma genSingleEncode_render:
  "genSingleEncode spec c d = render_lines (genSingleEncode_stmts spec c d)"
  by (simp add: genSingleEncode_def genSingleEncode_stmts_def Let_def)

lemma genSingleDecode_render:
  "genSingleDecode spec f = render_lines (genSingleDecode_stmts spec f)"
  by (simp add: genSingleDecode_def genSingleDecode_stmts_def Let_def window_def
        show_nat_digit digit_def)

lemma finishBits_render:
  "map render_stmt (finishBits_stmts bi buf) = finishBits bi (map render_stmt buf)"
  by (simp add: finishBits_def finishBits_stmts_def flush_stmt_def)

lemma render_set_bit:
  "render_stmt (set_bit_stmt i x)
     = ''bit_buffer = bit_buffer | (1 << '' @ show_nat i @ '') if '' @ x"
  by (simp add: set_bit_stmt_def show_nat_digit digit_def)

lemma render_zero: "render_stmt (Assign ''bit_buffer'' (Lit 0)) = ''bit_buffer = 0''"
  by (simp add: show_nat_digit digit_def)

lemma encode_loop_render:
  "render_lines (encode_loop_stmts spec fs bi buf)
     = encode_loop spec fs bi (map render_stmt buf)"
proof (induction fs arbitrary: bi buf)
  case Nil
  show ?case by (simp add: finishBits_render)
next
  case (Cons f fs)
  show ?case
  proof (cases "spec (domain f) = ''bit''")
    case True
    then show ?thesis
      by (simp add: Let_def Cons.IH finishBits_render render_set_bit render_zero
            del: render_stmt.simps split: option.split)
  next
    case False
    then show ?thesis
      by (simp add: genSingleEncode_render finishBits_render Cons.IH split: sum.split)
  qed
qed

lemma decode_loop_render:
  "render_lines (decode_loop_stmts spec fs bi buf)
     = decode_loop spec fs bi (map render_stmt buf)"
proof (induction fs arbitrary: bi buf)
  case Nil
  show ?case by simp
next
  case (Cons f fs)
  show ?case
  proof (cases "spec (domain f) = ''bit''")
    case True
    then show ?thesis
      by (simp add: Let_def Cons.IH test_bit_stmt_def window_def show_nat_digit digit_def
            split: option.split)
  next
    case False
    then show ?thesis
      by (simp add: genSingleDecode_render Cons.IH split: sum.split)
  qed
qed

lemma genEncodeMethodDefinition_render:
  "genEncodeMethodDefinition spec arguments
     = render_lines (genEncodeMethodDefinition_stmts spec arguments)"
  by (simp add: genEncodeMethodDefinition_def genEncodeMethodDefinition_stmts_def
        encode_loop_render)

lemma genDecodeMethodDefinition_render:
  "genDecodeMethodDefinition spec arguments
     = render_lines (genDecodeMethodDefinition_stmts spec arguments)"
  by (simp add: genDecodeMethodDefinition_def genDecodeMethodDefinition_stmts_def
        decode_loop_render)

section \<open>Running statements: basic facts\<close>

lemma lift1_simps [simp]: "lift1 g (Inl e) = Inl e" "lift1 g (Inr v) = g v"
  by (simp_all add: lift1_def)

lemma lift2_simps [simp]: "lift2 h (Inl e) r = Inl e" "lift2 h (Inr v) r = lift1 (h v) r"
  by (simp_all add: lift2_def)

lemma lift3_simps [simp]: "lift3 k (Inl e) r q = Inl e" "lift3 k (Inr v) r q = lift2 (k v) r q"
  by (simp_all add: lift3_def)

lemma assign_simps [simp]:
  "assign x (Inl e) env = Inl e" "assign x (Inr v) env = Inr (env(x \<mapsto> v))"
  by (simp_all add: assign_def)

lemma declared_Some [simp]: "env x = Some v \<Longrightarrow> declared x env = env"
  by (simp add: declared_def)

lemma declared_None [simp]: "env x = None \<Longrightarrow> declared x env = env(x \<mapsto> RNil)"
  by (simp add: declared_def)

lemma run_generated_simps [simp]:
  "run_generated L (Inl e) env = GenError e"
  "run_generated L (Inr ss) env
     = (case run L ss env of Inl x \<Rightarrow> Raises x | Inr env' \<Rightarrow> Returns env')"
  by (simp_all add: run_generated_def)

lemma returned_simps [simp]:
  "returned (Returns env) x = env x" "returned (Raises e) x = None"
  "returned (GenError g) x = None"
  by (simp_all add: returned_def)

lemma raised_simps [simp]:
  "raised (Returns env) = None" "raised (Raises e) = Some e" "raised (GenError g) = None"
  by (simp_all add: raised_def)

lemma run_append:
  "run L (a @ b) env = (case run L a env of Inl e \<Rightarrow> Inl e | Inr env' \<Rightarrow> run L b env')"
  by (induction a arbitrary: env) (simp_all split: sum.split)

section \<open>Bytes of an integer\<close>

lemma to_bytes_1: "to_bytes 1 i = [word_of_int i]"
  by (simp add: to_bytes_def)

lemma length_to_bytes: "length (to_bytes w i) = w"
  by (simp add: to_bytes_def)

lemma to_bytes_4:
  "to_bytes 4 (int n)
     = [of_nat (n div 256 div 256 div 256), of_nat (n div 256 div 256), of_nat (n div 256),
        of_nat n]"
proof -
  have u: "rev [0..<4] = [3, 2, 1, 0::nat]" by (simp add: upt_rec)
  have d3: "int n div 256 ^ 3 = int (n div 256 div 256 div 256)"
    by (simp add: zdiv_int div_mult2_eq [symmetric])
  have d2: "int n div 256 ^ 2 = int (n div 256 div 256)"
    by (simp add: zdiv_int div_mult2_eq [symmetric])
  have d1: "int n div 256 ^ 1 = int (n div 256)"
    by (simp add: zdiv_int)
  show ?thesis
    unfolding to_bytes_def u
    by (simp only: list.map d3 d2 d1 power_0 div_by_1 of_int_of_nat_eq)
qed

lemma unat_byte_of_nat: "unat (of_nat m :: byte) = m mod 256"
  by (simp add: unat_of_nat)

lemma big_endian_4:
  "big_endian [a, b, c, d] = ((unat a * 256 + unat b) * 256 + unat c) * 256 + unat d"
  by (simp add: big_endian_def)

lemma big_endian_to_bytes4:
  assumes "n < 2 ^ 32"
  shows "big_endian (to_bytes 4 (int n)) = n"
proof -
  define q1 where "q1 = n div 256"
  define q2 where "q2 = q1 div 256"
  define q3 where "q3 = q2 div 256"
  have "n div 256 div 256 div 256 = n div 16777216"
    by (simp add: div_mult2_eq [symmetric])
  moreover have "n div 16777216 < 256" using assms by simp
  ultimately have small: "q3 mod 256 = q3" by (simp add: q1_def q2_def q3_def)
  have e3: "q3 * 256 + q2 mod 256 = q2" unfolding q3_def by (rule div_mult_mod_eq)
  have e2: "q2 * 256 + q1 mod 256 = q1" unfolding q2_def by (rule div_mult_mod_eq)
  have e1: "q1 * 256 + n mod 256 = n" unfolding q1_def by (rule div_mult_mod_eq)
  have "big_endian (to_bytes 4 (int n))
          = ((q3 mod 256 * 256 + q2 mod 256) * 256 + q1 mod 256) * 256 + n mod 256"
    unfolding to_bytes_4 big_endian_4 unat_byte_of_nat q1_def q2_def q3_def ..
  also have "\<dots> = n" by (simp only: small e3 e2 e1)
  finally show ?thesis .
qed

section \<open>Encoding a string field\<close>

lemma shortstr_encode:
  assumes "spec d = ''shortstr''" "env c = Some (RStr s)" "env ''pieces'' = Some (RArr ps)"
    "length s \<le> 255"
  shows "returned (run_generated L (genSingleEncode_stmts spec c d) env) ''pieces''
         = Some (RArr (ps @ [RStr [of_nat (length s)], RStr s]))"
proof -
  have ne: "c \<noteq> ''pieces''" using assms by auto
  show ?thesis using assms ne
    by (simp add: genSingleEncode_stmts_def)
qed

lemma shortstr_encode_range:
  assumes "spec d = ''shortstr''" "env c = Some (RStr s)" "env ''pieces'' = Some (RArr ps)"
    "255 < length s"
  shows "run_generated L (genSingleEncode_stmts spec c d) env = Raises RangeError"
proof -
  have ne: "c \<noteq> ''pieces''" using assms by auto
  show ?thesis using assms ne
    by (simp add: genSingleEncode_stmts_def)
qed

lemma longstr_encode:
  assumes "spec d = ''longstr''" "env c = Some (RStr s)" "env ''pieces'' = Some (RArr ps)"
    "PACK_CACHE L ''N'' = ''N''"
  shows "returned (run_generated L (genSingleEncode_stmts spec c d) env) ''pieces''
         = Some (RArr (ps @ [RStr (to_bytes 4 (int (length s))), RStr s]))"
proof -
  have ne: "c \<noteq> ''pieces''" using assms by auto
  show ?thesis using assms ne
    by (simp add: genSingleEncode_stmts_def pack_def)
qed

section \<open>Failures of the single-field functions\<close>

lemma genSingleEncode_raises:
  "spec d = ''bit'' \<or> spec d \<notin> recognized \<Longrightarrow> genSingleEncode spec c d = Inl PyTypeError"
  by (auto simp add: genSingleEncode_def recognized_def)

lemma genSingleDecode_bit: "spec (domain f) = ''bit'' \<Longrightarrow> genSingleDecode spec f = Inl PyTypeError"
  by (simp add: genSingleDecode_def)

lemma genSingleDecode_illegal:
  "spec (domain f) \<notin> recognized \<Longrightarrow>
   genSingleDecode spec f
     = Inl (StandardError (illegal_domain_message (spec (domain f)) ''genSingleDecode''))"
  by (simp add: genSingleDecode_def recognized_def)

lemma genSingleEncode_ok:
  "spec d \<in> recognized \<Longrightarrow> spec d \<noteq> ''bit'' \<Longrightarrow> \<exists>lines. genSingleEncode spec c d = Inr lines"
  by (auto simp add: genSingleEncode_def recognized_def)

lemma genSingleDecode_ok:
  "spec (domain f) \<in> recognized \<Longrightarrow> spec (domain f) \<noteq> ''bit'' \<Longrightarrow>
   \<exists>lines. genSingleDecode spec f = Inr lines"
  by (auto simp add: genSingleDecode_def recognized_def)

text \<open>
  A single field fails exactly when its resolved domain is \<open>bit\<close> or is none of the nine
  domains; a failure is the whole result, no line comes with it.
\<close>

lemma single_field_fails_iff:
  "(isl (genSingleEncode spec c d) \<longleftrightarrow> spec d = ''bit'' \<or> spec d \<notin> recognized) \<and>
   (isl (genSingleDecode spec f) \<longleftrightarrow> spec (domain f) = ''bit'' \<or> spec (domain f) \<notin> recognized)"
proof -
  have e: "isl (genSingleEncode spec c d) \<longleftrightarrow> spec d = ''bit'' \<or> spec d \<notin> recognized"
  proof (cases "spec d = ''bit'' \<or> spec d \<notin> recognized")
    case True
    then show ?thesis using genSingleEncode_raises [of spec d c] by auto
  next
    case False
    then show ?thesis using genSingleEncode_ok [of spec d c] by auto
  qed
  have g: "isl (genSingleDecode spec f) \<longleftrightarrow> spec (domain f) = ''bit'' \<or> spec (domain f) \<notin> recognized"
  proof (cases "spec (domain f) = ''bit'' \<or> spec (domain f) \<notin> recognized")
    case True
    then show ?thesis
      using genSingleDecode_bit [of spec f] genSingleDecode_illegal [of spec f] by auto
  next
    case False
    then show ?thesis using genSingleDecode_ok [of spec f] by auto
  qed
  show ?thesis using e g by blast
qed

text \<open>
  C9. The failures do not come in the two kinds of the claim. Encoding a field of the
  unrecognized domain \<open>float\<close> raises the same \<open>TypeError\<close> as encoding a bit field, with
  no domain in it, because both branches raise a string; so does decoding a bit field.
  Only decoding an unrecognized domain raises an exception of its own,
  \<open>StandardError\<close>, whose message names the domain.
\<close>

theorem single_field_error_kinds:
  "genSingleEncode (\<lambda>d. d) ''x'' ''bit'' = Inl PyTypeError \<and>
   genSingleEncode (\<lambda>d. d) ''x'' ''float'' = Inl PyTypeError \<and>
   genSingleDecode (\<lambda>d. d) (fld ''x'' ''bit'') = Inl PyTypeError \<and>
   genSingleDecode (\<lambda>d. d) (fld ''x'' ''float'')
     = Inl (StandardError (''Illegal domain '' @ [CHR 0x27] @ ''float'' @ [CHR 0x27]
                            @ '' in genSingleDecode''))"
  by code_simp

section \<open>String encoding\<close>

text \<open>
  C8, as amended. For a string of at most 255 bytes, the lines emitted for a \<open>shortstr\<close>
  field push the single byte holding the length and then the bytes of the string. For a
  string of fewer than \<open>2 ^ 32\<close> bytes, the lines emitted for a \<open>longstr\<close> field (with
  \<open>PACK_CACHE[:N]\<close> the directive \<open>N\<close>) push four bytes whose big-endian value is the
  length and then the bytes of the string.
\<close>

theorem string_encoding_layout:
  assumes "env c = Some (RStr s)" and "env ''pieces'' = Some (RArr ps)"
  shows "(spec d = ''shortstr'' \<and> length s \<le> 255 \<longrightarrow>
            returned (run_generated L (genSingleEncode_stmts spec c d) env) ''pieces''
              = Some (RArr (ps @ [RStr [of_nat (length s)], RStr s])) \<and>
            unat (of_nat (length s) :: byte) = length s) \<and>
         (spec d = ''longstr'' \<and> PACK_CACHE L ''N'' = ''N'' \<and> length s < 2 ^ 32 \<longrightarrow>
            returned (run_generated L (genSingleEncode_stmts spec c d) env) ''pieces''
              = Some (RArr (ps @ [RStr (to_bytes 4 (int (length s))), RStr s])) \<and>
            length (to_bytes 4 (int (length s))) = 4 \<and>
            big_endian (to_bytes 4 (int (length s))) = length s)"
  using assms
  by (simp add: shortstr_encode longstr_encode unat_byte_of_nat length_to_bytes
        big_endian_to_bytes4)

text \<open>The two examples of the specification: \<open>"AB"\<close> as a shortstr, \<open>""\<close> as a longstr.\<close>

theorem string_encoding_layout_witness:
  "returned (run_generated directive_lib (genSingleEncode_stmts (\<lambda>d. d) ''s'' ''shortstr'')
       [''s'' \<mapsto> RStr [0x41, 0x42], ''pieces'' \<mapsto> RArr []]) ''pieces''
     = Some (RArr [RStr [0x02], RStr [0x41, 0x42]]) \<and>
   returned (run_generated directive_lib (genSingleEncode_stmts (\<lambda>d. d) ''s'' ''longstr'')
       [''s'' \<mapsto> RStr [], ''pieces'' \<mapsto> RArr []]) ''pieces''
     = Some (RArr [RStr [0, 0, 0, 0], RStr []])"
proof -
  have z: "to_bytes 4 (int 0) = [0, 0, 0, 0]" unfolding to_bytes_4 by simp
  have p: "PACK_CACHE directive_lib ''N'' = ''N''" by (simp add: directive_lib_def)
  show ?thesis
    using
      string_encoding_layout [of "[''s'' \<mapsto> RStr [0x41, 0x42], ''pieces'' \<mapsto> RArr []]" "''s''"
        "[0x41, 0x42]" "[]" "\<lambda>d. d" "''shortstr''" directive_lib]
      string_encoding_layout [of "[''s'' \<mapsto> RStr [], ''pieces'' \<mapsto> RArr []]" "''s''"
        "[]" "[]" "\<lambda>d. d" "''longstr''" directive_lib]
      z p
    by simp
qed

text \<open>
  The claim as stated, for every string value, fails at a string of 256 bytes: \<open>256.chr\<close>
  raises and nothing is encoded.
\<close>

theorem shortstr_256_counterexample:
  "raised (run_generated directive_lib (genSingleEncode_stmts (\<lambda>d. d) ''s'' ''shortstr'')
       [''s'' \<mapsto> RStr (replicate 256 0x41), ''pieces'' \<mapsto> RArr []]) = Some RangeError \<and>
   buffer_of (run_generated directive_lib (genSingleEncode_stmts (\<lambda>d. d) ''s'' ''shortstr'')
       [''s'' \<mapsto> RStr (replicate 256 0x41), ''pieces'' \<mapsto> RArr []]) = None"
  by code_simp

text \<open>
  C10. The lines emitted for a \<open>shortstr\<close> field take the length prefix straight from
  \<open>bytesize\<close>, with no check of its range. The prefix is right for a string of at most 255
  bytes. For a longer string the generator reports no error of its own and the emitted
  code encodes nothing: \<open>Integer#chr\<close> raises Ruby's \<open>RangeError\<close>.
\<close>

theorem shortstr_length_unchecked:
  assumes "spec d = ''shortstr''" and "env c = Some (RStr s)"
    and "env ''pieces'' = Some (RArr ps)"
  shows "genSingleEncode spec c d
           = Inr [''pieces << '' @ c @ ''.bytesize.chr'', ''pieces << '' @ c] \<and>
         (length s \<le> 255 \<longrightarrow>
            returned (run_generated L (genSingleEncode_stmts spec c d) env) ''pieces''
              = Some (RArr (ps @ [RStr [of_nat (length s)], RStr s]))) \<and>
         (255 < length s \<longrightarrow>
            run_generated L (genSingleEncode_stmts spec c d) env = Raises RangeError)"
  using assms
  by (simp add: shortstr_encode shortstr_encode_range genSingleEncode_def)

theorem shortstr_length_unchecked_witness:
  "genSingleEncode (\<lambda>d. d) ''name'' ''shortstr''
     = Inr [''pieces << name.bytesize.chr'', ''pieces << name''] \<and>
   returned (run_generated directive_lib (genSingleEncode_stmts (\<lambda>d. d) ''name'' ''shortstr'')
       [''name'' \<mapsto> RStr [0x61, 0x62, 0x63], ''pieces'' \<mapsto> RArr []]) ''pieces''
     = Some (RArr [RStr [0x03], RStr [0x61, 0x62, 0x63]]) \<and>
   run_generated directive_lib (genSingleEncode_stmts (\<lambda>d. d) ''name'' ''shortstr'')
       [''name'' \<mapsto> RStr (replicate 300 0x61), ''pieces'' \<mapsto> RArr []] = Raises RangeError"
  using
    shortstr_length_unchecked [of "\<lambda>d. d" "''shortstr''"
      "[''name'' \<mapsto> RStr [0x61, 0x62, 0x63], ''pieces'' \<mapsto> RArr []]" "''name''"
      "[0x61, 0x62, 0x63]" "[]" directive_lib]
    shortstr_length_unchecked [of "\<lambda>d. d" "''shortstr''"
      "[''name'' \<mapsto> RStr (replicate 300 0x61), ''pieces'' \<mapsto> RArr []]" "''name''"
      "replicate 300 0x61" "[]" directive_lib]
  by simp

section \<open>Decoding: what the generated lines do\<close>

text \<open>
  C1. Two bit fields \<open>a\<close> and \<open>b\<close>, both true, encode to the single octet 3. Decoding
  that octet with the generated decode lines restores \<open>a\<close> and never assigns \<open>b\<close>: the
  round trip does not restore the field values.
\<close>

theorem roundtrip_two_bits_loses_second:
  "buffer_of (encode_method directive_lib (\<lambda>d. d) [fld ''a'' ''bit'', fld ''b'' ''bit'']
       [''a'' \<mapsto> RBool True, ''b'' \<mapsto> RBool True]) = Some [0x03] \<and>
   raised (decode_method directive_lib (\<lambda>d. d) [fld ''a'' ''bit'', fld ''b'' ''bit''] [0x03]) = None \<and>
   returned (decode_method directive_lib (\<lambda>d. d) [fld ''a'' ''bit'', fld ''b'' ''bit''] [0x03]) ''a''
     = Some (RBool True) \<and>
   returned (decode_method directive_lib (\<lambda>d. d) [fld ''a'' ''bit'', fld ''b'' ''bit''] [0x03]) ''b''
     = None"
  by code_simp

text \<open>
  C2. For two consecutive bit fields the generated decode method has three lines: the
  read of the octet, the advance of the cursor, and the assignment of the first field.
  No line assigns the second field.
\<close>

theorem decode_lines_two_bits:
  "genDecodeMethodDefinition (\<lambda>d. d) [fld ''a'' ''bit'', fld ''b'' ''bit'']
     = Inr [''bit_buffer = data[offset, 2].unpack(PACK_CACHE[:c]).first'',
            ''offset += 1'',
            ''a = (bit_buffer & (1 << 0)) != 0'']"
  by code_simp

text \<open>
  C3. The lines generated for a table field are the read of the length and the call of
  \<open>Table.decode\<close>; neither moves \<open>offset\<close>. On an empty table (four zero bytes) followed
  by the octet 42, the octet field is read from the first byte of the table and the
  cursor ends at 1, where 5 bytes were to be consumed; \<open>Table.decode\<close> is handed one
  byte.
\<close>

theorem table_decode_leaves_cursor:
  "genSingleDecode (\<lambda>d. d) (fld ''t'' ''table'')
     = Inr [''table_length = Table.length(data[offset, 5])'',
            ''t = Table.decode(data[offset, table_length - offset + 1])''] \<and>
   raised (decode_method directive_lib (\<lambda>d. d) [fld ''t'' ''table'', fld ''x'' ''octet'']
       [0, 0, 0, 0, 0x2A]) = None \<and>
   returned (decode_method directive_lib (\<lambda>d. d) [fld ''t'' ''table'', fld ''x'' ''octet'']
       [0, 0, 0, 0, 0x2A]) ''x'' = Some (RInt 0) \<and>
   returned (decode_method directive_lib (\<lambda>d. d) [fld ''t'' ''table'', fld ''x'' ''octet'']
       [0, 0, 0, 0, 0x2A]) ''offset'' = Some (RInt 1) \<and>
   returned (decode_method directive_lib (\<lambda>d. d) [fld ''t'' ''table'', fld ''x'' ''octet'']
       [0, 0, 0, 0, 0x2A]) ''t'' = Some (RStr [0])"
  by code_simp

text \<open>
  C5. The line generated for a timestamp field reads a window of 7 bytes and keeps the
  first of two 32-bit values. The 8-byte timestamp 1 decodes to 0, and the timestamp
  \<open>2 ^ 32\<close> decodes to 1: the low four bytes never reach the field.
\<close>

theorem timestamp_low_bytes_lost:
  "genSingleDecode (\<lambda>d. d) (fld ''ts'' ''timestamp'')
     = Inr [''ts = data[offset, 7].unpack(PACK_CACHE[:N2]).first'', ''offset += 8''] \<and>
   returned (decode_method directive_lib (\<lambda>d. d) [fld ''ts'' ''timestamp'']
       [0, 0, 0, 0, 0, 0, 0, 1]) ''ts'' = Some (RInt 0) \<and>
   returned (decode_method directive_lib (\<lambda>d. d) [fld ''ts'' ''timestamp'']
       [0, 0, 0, 1, 0, 0, 0, 0]) ''ts'' = Some (RInt 1) \<and>
   returned (decode_method directive_lib (\<lambda>d. d) [fld ''ts'' ''timestamp'']
       [0, 0, 0, 0, 0, 0, 0, 1]) ''offset'' = Some (RInt 8)"
  by code_simp

text \<open>
  C7. With \<open>PACK_CACHE[:c]\<close> the directive \<open>c\<close>, the byte 255 decodes as the octet \<open>-1\<close>.
  A shortstr with length prefix 200 followed by 200 bytes decodes to \<open>nil\<close>, and the
  cursor moves back to \<open>-55\<close>.
\<close>

theorem octet_decodes_signed:
  "returned (decode_method directive_lib (\<lambda>d. d) [fld ''o'' ''octet''] [0xFF]) ''o''
     = Some (RInt (- 1)) \<and>
   returned (decode_method directive_lib (\<lambda>d. d) [fld ''s'' ''shortstr'']
       (0xC8 # replicate 200 0x41)) ''s'' = Some RNil \<and>
   returned (decode_method directive_lib (\<lambda>d. d) [fld ''s'' ''shortstr'']
       (0xC8 # replicate 200 0x41)) ''offset'' = Some (RInt (- 55))"
  by code_simp

section \<open>Decoding from too few bytes\<close>

lemma substr_in_range:
  "0 \<le> off \<Longrightarrow> off \<le> int (length buf) \<Longrightarrow>
   substr buf off (int k) = RStr (take k (drop (nat off) buf))"
  by (simp add: substr_def)

text \<open>
  The claim C4 as stated fails: a long field decoded from three bytes raises nothing;
  the field is \<open>nil\<close> and the cursor is 4.
\<close>

theorem long_from_three_bytes_counterexample:
  "raised (decode_method directive_lib (\<lambda>d. d) [fld ''n'' ''long''] [1, 2, 3]) = None \<and>
   returned (decode_method directive_lib (\<lambda>d. d) [fld ''n'' ''long''] [1, 2, 3]) ''n'' = Some RNil \<and>
   returned (decode_method directive_lib (\<lambda>d. d) [fld ''n'' ''long''] [1, 2, 3]) ''offset''
     = Some (RInt 4)"
  by code_simp

text \<open>
  C4, as amended. For an octet, short or long field (widths 1, 2 and 4), with
  \<open>PACK_CACHE\<close> holding the directives \<open>c\<close>, \<open>n\<close> and \<open>N\<close> under their names: when the
  cursor is inside the buffer and fewer bytes remain than the width, the generated lines
  raise nothing, set the field to \<open>nil\<close> and advance the cursor by the width.
\<close>

theorem short_read_yields_nil:
  assumes "PACK_CACHE L ''c'' = ''c''" and "PACK_CACHE L ''n'' = ''n''"
    and "PACK_CACHE L ''N'' = ''N''"
    and "env ''data'' = Some (RStr buf)" and "env ''offset'' = Some (RInt off)"
    and "0 \<le> off" and "off \<le> int (length buf)"
    and "ruby_name f \<noteq> ''offset''"
    and "(spec (domain f) = ''octet'' \<and> w = 1) \<or> (spec (domain f) = ''short'' \<and> w = 2)
         \<or> (spec (domain f) = ''long'' \<and> w = 4)"
    and "int (length buf) - off < w"
  shows "run_generated L (genSingleDecode_stmts spec f) env
           = Returns (env(ruby_name f \<mapsto> RNil, ''offset'' \<mapsto> RInt (off + w)))"
proof -
  have sl: "\<And>k. eval L (declared (ruby_name f) env) (window k)
              = Inr (RStr (take k (drop (nat off) buf)))"
    using assms(4-8) by (auto simp add: window_def declared_def substr_in_range split: option.split)
  have len: "int (length (drop (nat off) buf)) < w" using assms(6,7,10) by simp
  show ?thesis
    using assms(9)
  proof (elim disjE conjE)
    assume "spec (domain f) = ''octet''" "w = 1"
    moreover from this len have "drop (nat off) buf = []" by simp
    ultimately show ?thesis using assms(1,5,8)
      by (simp add: genSingleDecode_stmts_def sl unpack_def)
  next
    assume "spec (domain f) = ''short''" "w = 2"
    moreover from this len have "length (drop (nat off) buf) < 2" by simp
    ultimately show ?thesis using assms(2,5,8)
      by (simp add: genSingleDecode_stmts_def sl unpack_def unpack_uint_def)
  next
    assume "spec (domain f) = ''long''" "w = 4"
    moreover from this len have "length (drop (nat off) buf) < 4" by simp
    ultimately show ?thesis using assms(3,5,8)
      by (simp add: genSingleDecode_stmts_def sl unpack_def unpack_uint_def)
  qed
qed

theorem short_read_yields_nil_witness:
  "run_generated directive_lib (genSingleDecode_stmts (\<lambda>d. d) (fld ''n'' ''long''))
       [''data'' \<mapsto> RStr [1, 2, 3], ''offset'' \<mapsto> RInt 0]
     = Returns [''data'' \<mapsto> RStr [1, 2, 3], ''offset'' \<mapsto> RInt 0, ''n'' \<mapsto> RNil,
                ''offset'' \<mapsto> RInt 4]"
  using short_read_yields_nil [of directive_lib
      "[''data'' \<mapsto> RStr [1, 2, 3], ''offset'' \<mapsto> RInt 0]" "[1, 2, 3]" 0
      "fld ''n'' ''long''" "\<lambda>d. d" 4]
  by (simp add: directive_lib_def fld_def)

section \<open>Encoding a run of bit fields\<close>

lemma groups_of_8_Nil [simp]: "groups_of_8 [] = []"
  by (simp add: groups_of_8.simps)

lemma groups_of_8_small: "xs \<noteq> [] \<Longrightarrow> length xs \<le> 8 \<Longrightarrow> groups_of_8 xs = [xs]"
  by (subst groups_of_8.simps) simp

lemma groups_of_8_full: "length xs = 8 \<Longrightarrow> groups_of_8 (xs @ ys) = xs # groups_of_8 ys"
  by (subst groups_of_8.simps) auto

lemma bits_value_bound: "bits_value bs < 2 ^ length bs"
  by (induction bs) auto

lemma bits_value_snoc:
  "bits_value (bs @ [b]) = bits_value bs + (if b then 2 ^ length bs else 0)"
  by (induction bs) auto

lemma or_pow:
  assumes "n < 2 ^ i"
  shows "int n OR 2 ^ i = int (n + 2 ^ i)"
proof -
  have "int n < 2 ^ i" using assms by (metis of_nat_less_iff of_nat_numeral of_nat_power)
  then have "int n div 2 ^ i = 0" by simp
  then have nb: "\<not> bit (int n) i" by (simp add: bit_iff_odd)
  have "int n OR 2 ^ i = set_bit i (int n)"
    by (simp add: set_bit_eq_or)
  also have "\<dots> = int n + 2 ^ i" using nb by (simp add: set_bit_eq)
  finally show ?thesis by simp
qed

lemma step_none:
  "spec (domain f) = ''bit'' \<Longrightarrow>
   encode_loop_stmts spec (f # fs) None buf
     = encode_loop_stmts spec fs (Some 1)
         (buf @ [Assign ''bit_buffer'' (Lit 0), set_bit_stmt 0 (ruby_name f)])"
  by simp

lemma step_full:
  "spec (domain f) = ''bit'' \<Longrightarrow> 8 \<le> i \<Longrightarrow>
   encode_loop_stmts spec (f # fs) (Some i) buf
     = encode_loop_stmts spec fs (Some 1)
         (buf @ [flush_stmt, Assign ''bit_buffer'' (Lit 0), set_bit_stmt 0 (ruby_name f)])"
  by (simp add: finishBits_stmts_def)

lemma step_part:
  "spec (domain f) = ''bit'' \<Longrightarrow> i < 8 \<Longrightarrow>
   encode_loop_stmts spec (f # fs) (Some i) buf
     = encode_loop_stmts spec fs (Some (i + 1)) (buf @ [set_bit_stmt i (ruby_name f)])"
  by simp

lemma step_other:
  "spec (domain f) \<noteq> ''bit'' \<Longrightarrow>
   encode_loop_stmts spec (f # fs) bi buf
     = (case genSingleEncode_stmts spec (ruby_name f) (domain f) of
          Inl e \<Rightarrow> Inl e
        | Inr lines \<Rightarrow> encode_loop_stmts spec fs None (finishBits_stmts bi buf @ lines))"
  by simp

lemma finishBits_stmts_append: "finishBits_stmts bi buf = buf @ finishBits_stmts bi []"
  by (simp add: finishBits_stmts_def)

lemma encode_loop_stmts_buffer:
  "encode_loop_stmts spec fs bi buf
     = (case encode_loop_stmts spec fs bi [] of Inl e \<Rightarrow> Inl e | Inr ss \<Rightarrow> Inr (buf @ ss))"
proof (induction fs arbitrary: bi buf)
  case Nil
  show ?case using finishBits_stmts_append [of bi buf] by simp
next
  case (Cons f fs)
  have IH: "\<And>bi buf more. encode_loop_stmts spec fs bi (buf @ more)
      = (case encode_loop_stmts spec fs bi more of Inl e \<Rightarrow> Inl e | Inr ss \<Rightarrow> Inr (buf @ ss))"
  proof -
    fix bi buf more
    show "encode_loop_stmts spec fs bi (buf @ more)
      = (case encode_loop_stmts spec fs bi more of Inl e \<Rightarrow> Inl e | Inr ss \<Rightarrow> Inr (buf @ ss))"
      using Cons.IH [of bi "buf @ more"] Cons.IH [of bi more]
      by (simp split: sum.split)
  qed
  show ?case
  proof (cases "spec (domain f) = ''bit''")
    case True
    show ?thesis
    proof (cases bi)
      case None
      show ?thesis
        unfolding None step_none [of spec f, OF True]
        using IH [of "Some 1" buf "[Assign ''bit_buffer'' (Lit 0), set_bit_stmt 0 (ruby_name f)]"]
        by simp
    next
      case (Some i)
      show ?thesis
      proof (cases "8 \<le> i")
        case True8: True
        show ?thesis
          unfolding Some step_full [of spec f, OF True True8]
          using IH [of "Some 1" buf
              "[flush_stmt, Assign ''bit_buffer'' (Lit 0), set_bit_stmt 0 (ruby_name f)]"]
          by simp
      next
        case False
        then have lt: "i < 8" by simp
        show ?thesis
          unfolding Some step_part [of spec f, OF True lt]
          using IH [of "Some (i + 1)" buf "[set_bit_stmt i (ruby_name f)]"]
          by simp
      qed
    qed
  next
    case False
    show ?thesis
    proof (cases "genSingleEncode_stmts spec (ruby_name f) (domain f)")
      case (Inl e)
      then show ?thesis using False by simp
    next
      case (Inr lines)
      have "finishBits_stmts bi buf @ lines = buf @ (finishBits_stmts bi [] @ lines)"
        using finishBits_stmts_append [of bi buf] by simp
      then show ?thesis
        unfolding step_other [of spec f, OF False] Inr
        using IH [of None buf "finishBits_stmts bi [] @ lines"]
        by simp
    qed
  qed
qed

lemma exec_zero:
  "exec L (Assign ''bit_buffer'' (Lit 0)) env = Inr (env(''bit_buffer'' \<mapsto> RInt 0))"
  by simp

lemma exec_set_bit:
  assumes "env ''bit_buffer'' = Some (RInt v)" and "env x = Some xv" and "x \<noteq> ''bit_buffer''"
  shows "exec L (set_bit_stmt i x) env
           = Inr (env(''bit_buffer'' \<mapsto> RInt (if truthy xv then v OR 2 ^ i else v)))"
proof -
  have "env(''bit_buffer'' \<mapsto> RInt v) = env" using assms(1) by (rule map_upd_triv)
  then show ?thesis using assms by (simp add: set_bit_stmt_def)
qed

lemma exec_flush:
  assumes "PACK_CACHE L ''c'' = ''c''" and "env ''bit_buffer'' = Some (RInt v)"
    and "env ''pieces'' = Some (RArr ps)"
  shows "exec L flush_stmt env = Inr (env(''pieces'' \<mapsto> RArr (ps @ [RStr [word_of_int v]])))"
  using assms to_bytes_1 [of v] by (simp add: flush_stmt_def pack_def)

lemma field_bits_upd:
  assumes "\<forall>f\<in>set fs. ruby_name f \<noteq> x"
  shows "field_bits (env(x \<mapsto> v)) fs = field_bits env fs"
  using assms by (simp add: field_bits_def)

lemma field_bits_Cons:
  "env (ruby_name f) = Some xv \<Longrightarrow> field_bits env (f # fs) = truthy xv # field_bits env fs"
  by (simp add: field_bits_def)

lemma bit_run_loop:
  assumes c: "PACK_CACHE L ''c'' = ''c''"
  shows "\<lbrakk>\<forall>f\<in>set fs. spec (domain f) = ''bit'' \<and> ruby_name f \<in> dom env \<and>
            ruby_name f \<noteq> ''bit_buffer'' \<and> ruby_name f \<noteq> ''pieces'';
          env ''pieces'' = Some (RArr ps);
          (bi = None \<and> cur = []) \<or>
          (bi = Some (length cur) \<and> cur \<noteq> [] \<and> length cur \<le> 8 \<and>
           env ''bit_buffer'' = Some (RInt (int (bits_value cur))))\<rbrakk>
     \<Longrightarrow> \<exists>ss env'. encode_loop_stmts spec fs bi [] = Inr ss \<and> run L ss env = Inr env' \<and>
          env' ''pieces''
            = Some (RArr (ps @ map (\<lambda>g. RStr [of_nat (bits_value g)])
                                  (groups_of_8 (cur @ field_bits env fs))))"
proof (induction fs arbitrary: bi cur env ps)
  case Nil
  from Nil.prems(3) show ?case
  proof (elim disjE conjE)
    assume "bi = None" "cur = []"
    then show ?thesis using Nil.prems(2) by (simp add: finishBits_stmts_def field_bits_def)
  next
    assume b: "bi = Some (length cur)" "cur \<noteq> []" "length cur \<le> 8"
      "env ''bit_buffer'' = Some (RInt (int (bits_value cur)))"
    have "run L [flush_stmt] env
            = Inr (env(''pieces'' \<mapsto> RArr (ps @ [RStr [of_nat (bits_value cur)]])))"
      using exec_flush [OF c b(4) Nil.prems(2)] by simp
    then show ?thesis using b
      by (simp add: finishBits_stmts_def field_bits_def groups_of_8_small)
  qed
next
  case (Cons f fs)
  obtain xv where xv: "env (ruby_name f) = Some xv"
    using Cons.prems(1) by auto
  have bit: "spec (domain f) = ''bit''" and nb: "ruby_name f \<noteq> ''bit_buffer''"
    and np: "ruby_name f \<noteq> ''pieces''"
    using Cons.prems(1) by auto
  have rest: "\<forall>g\<in>set fs. spec (domain g) = ''bit'' \<and> ruby_name g \<noteq> ''bit_buffer'' \<and>
      ruby_name g \<noteq> ''pieces''"
    using Cons.prems(1) by auto
  have restdom: "\<forall>g\<in>set fs. ruby_name g \<in> dom env" using Cons.prems(1) by auto
  let ?b = "truthy xv"
  from Cons.prems(3) show ?case
  proof (elim disjE conjE)
    assume s: "bi = None" "cur = []"
    let ?pre = "[Assign ''bit_buffer'' (Lit 0), set_bit_stmt 0 (ruby_name f)]"
    let ?env1 = "env(''bit_buffer'' \<mapsto> RInt 0)"
    let ?env2 = "env(''bit_buffer'' \<mapsto> RInt (int (bits_value [?b])))"
    have e1: "?env1 ''bit_buffer'' = Some (RInt 0)" by simp
    have e1x: "?env1 (ruby_name f) = Some xv" using xv nb by simp
    have "exec L (set_bit_stmt 0 (ruby_name f)) ?env1
            = Inr (?env1(''bit_buffer'' \<mapsto> RInt (if ?b then 0 OR 2 ^ 0 else 0)))"
      by (rule exec_set_bit [OF e1 e1x nb])
    then have pre: "run L ?pre env = Inr ?env2" by (simp add: exec_zero)
    have "\<exists>ss env'. encode_loop_stmts spec fs (Some 1) [] = Inr ss \<and> run L ss ?env2 = Inr env' \<and>
          env' ''pieces''
            = Some (RArr (ps @ map (\<lambda>g. RStr [of_nat (bits_value g)])
                                  (groups_of_8 ([?b] @ field_bits ?env2 fs))))"
    proof (rule Cons.IH)
      show "\<forall>g\<in>set fs. spec (domain g) = ''bit'' \<and> ruby_name g \<in> dom ?env2 \<and>
              ruby_name g \<noteq> ''bit_buffer'' \<and> ruby_name g \<noteq> ''pieces''"
        using rest restdom by auto
      show "?env2 ''pieces'' = Some (RArr ps)" using Cons.prems(2) by simp
      show "(Some 1 = None \<and> [?b] = []) \<or>
            (Some 1 = Some (length [?b]) \<and> [?b] \<noteq> [] \<and> length [?b] \<le> 8 \<and>
             ?env2 ''bit_buffer'' = Some (RInt (int (bits_value [?b]))))"
        by simp
    qed
    then obtain ss env' where r: "encode_loop_stmts spec fs (Some 1) [] = Inr ss"
      "run L ss ?env2 = Inr env'"
      "env' ''pieces'' = Some (RArr (ps @ map (\<lambda>g. RStr [of_nat (bits_value g)])
                                  (groups_of_8 ([?b] @ field_bits ?env2 fs))))"
      by blast
    have fb: "field_bits ?env2 fs = field_bits env fs"
      using rest by (simp add: field_bits_upd)
    have gen: "encode_loop_stmts spec (f # fs) bi [] = Inr (?pre @ ss)"
      unfolding s step_none [of spec f, OF bit]
      using encode_loop_stmts_buffer [of spec fs "Some 1" "[] @ ?pre"] r(1) by simp
    have "run L (?pre @ ss) env = Inr env'"
      unfolding run_append pre using r(2) by simp
    then show ?thesis using gen r(3) s fb xv
      by (simp add: field_bits_Cons)
  next
    assume s: "bi = Some (length cur)" "cur \<noteq> []" "length cur \<le> 8"
      "env ''bit_buffer'' = Some (RInt (int (bits_value cur)))"
    show ?thesis
    proof (cases "length cur = 8")
      case True
      let ?pre = "[flush_stmt, Assign ''bit_buffer'' (Lit 0), set_bit_stmt 0 (ruby_name f)]"
      let ?ps1 = "ps @ [RStr [of_nat (bits_value cur)]]"
      let ?env0 = "env(''pieces'' \<mapsto> RArr ?ps1)"
      let ?env1 = "?env0(''bit_buffer'' \<mapsto> RInt 0)"
      let ?env2 = "?env0(''bit_buffer'' \<mapsto> RInt (int (bits_value [?b])))"
      have f0: "exec L flush_stmt env = Inr ?env0"
        using exec_flush [OF c s(4) Cons.prems(2)] by simp
      have e1: "?env1 ''bit_buffer'' = Some (RInt 0)" by simp
      have e1x: "?env1 (ruby_name f) = Some xv" using xv nb np by simp
      have "exec L (set_bit_stmt 0 (ruby_name f)) ?env1
              = Inr (?env1(''bit_buffer'' \<mapsto> RInt (if ?b then 0 OR 2 ^ 0 else 0)))"
        by (rule exec_set_bit [OF e1 e1x nb])
      then have pre: "run L ?pre env = Inr ?env2" by (simp add: exec_zero f0)
      have "\<exists>ss env'. encode_loop_stmts spec fs (Some 1) [] = Inr ss \<and> run L ss ?env2 = Inr env' \<and>
            env' ''pieces''
              = Some (RArr (?ps1 @ map (\<lambda>g. RStr [of_nat (bits_value g)])
                                    (groups_of_8 ([?b] @ field_bits ?env2 fs))))"
      proof (rule Cons.IH)
        show "\<forall>g\<in>set fs. spec (domain g) = ''bit'' \<and> ruby_name g \<in> dom ?env2 \<and>
                ruby_name g \<noteq> ''bit_buffer'' \<and> ruby_name g \<noteq> ''pieces''"
          using rest restdom by auto
        show "?env2 ''pieces'' = Some (RArr ?ps1)" by simp
        show "(Some 1 = None \<and> [?b] = []) \<or>
              (Some 1 = Some (length [?b]) \<and> [?b] \<noteq> [] \<and> length [?b] \<le> 8 \<and>
               ?env2 ''bit_buffer'' = Some (RInt (int (bits_value [?b]))))"
          by simp
      qed
      then obtain ss env' where r: "encode_loop_stmts spec fs (Some 1) [] = Inr ss"
        "run L ss ?env2 = Inr env'"
        "env' ''pieces'' = Some (RArr (?ps1 @ map (\<lambda>g. RStr [of_nat (bits_value g)])
                                    (groups_of_8 ([?b] @ field_bits ?env2 fs))))"
        by blast
      have fb: "field_bits ?env2 fs = field_bits env fs"
        using rest by (simp add: field_bits_upd)
      have ge: "8 \<le> length cur" using True by simp
      have gen: "encode_loop_stmts spec (f # fs) bi [] = Inr (?pre @ ss)"
        unfolding s step_full [of spec f, OF bit ge]
        using encode_loop_stmts_buffer [of spec fs "Some 1" "[] @ ?pre"] r(1) by simp
      have "run L (?pre @ ss) env = Inr env'"
        unfolding run_append pre using r(2) by simp
      then show ?thesis using gen r(3) fb xv True
        by (simp add: field_bits_Cons groups_of_8_full)
    next
      case False
      then have lt: "length cur < 8" using s(3) by simp
      let ?i = "length cur"
      let ?pre = "[set_bit_stmt ?i (ruby_name f)]"
      let ?env2 = "env(''bit_buffer'' \<mapsto> RInt (int (bits_value (cur @ [?b]))))"
      have val: "(if ?b then int (bits_value cur) OR 2 ^ ?i else int (bits_value cur))
                   = int (bits_value (cur @ [?b]))"
        using or_pow [OF bits_value_bound [of cur]] by (simp add: bits_value_snoc)
      have "exec L (set_bit_stmt ?i (ruby_name f)) env
              = Inr (env(''bit_buffer'' \<mapsto>
                  RInt (if ?b then int (bits_value cur) OR 2 ^ ?i else int (bits_value cur))))"
        by (rule exec_set_bit [OF s(4) xv nb])
      then have pre: "run L ?pre env = Inr ?env2" by (simp add: val)
      have "\<exists>ss env'. encode_loop_stmts spec fs (Some (?i + 1)) [] = Inr ss \<and>
            run L ss ?env2 = Inr env' \<and>
            env' ''pieces''
              = Some (RArr (ps @ map (\<lambda>g. RStr [of_nat (bits_value g)])
                                    (groups_of_8 ((cur @ [?b]) @ field_bits ?env2 fs))))"
      proof (rule Cons.IH)
        show "\<forall>g\<in>set fs. spec (domain g) = ''bit'' \<and> ruby_name g \<in> dom ?env2 \<and>
                ruby_name g \<noteq> ''bit_buffer'' \<and> ruby_name g \<noteq> ''pieces''"
          using rest restdom by auto
        show "?env2 ''pieces'' = Some (RArr ps)" using Cons.prems(2) by simp
        show "(Some (?i + 1) = None \<and> cur @ [?b] = []) \<or>
              (Some (?i + 1) = Some (length (cur @ [?b])) \<and> cur @ [?b] \<noteq> [] \<and>
               length (cur @ [?b]) \<le> 8 \<and>
               ?env2 ''bit_buffer'' = Some (RInt (int (bits_value (cur @ [?b])))))"
          using lt by simp
      qed
      then obtain ss env' where r: "encode_loop_stmts spec fs (Some (?i + 1)) [] = Inr ss"
        "run L ss ?env2 = Inr env'"
        "env' ''pieces'' = Some (RArr (ps @ map (\<lambda>g. RStr [of_nat (bits_value g)])
                                    (groups_of_8 ((cur @ [?b]) @ field_bits ?env2 fs))))"
        by blast
      have fb: "field_bits ?env2 fs = field_bits env fs"
        using rest by (simp add: field_bits_upd)
      have gen: "encode_loop_stmts spec (f # fs) bi [] = Inr (?pre @ ss)"
        unfolding s step_part [of spec f, OF bit lt]
        using encode_loop_stmts_buffer [of spec fs "Some (?i + 1)" "[] @ ?pre"] r(1) by simp
      have "run L (?pre @ ss) env = Inr env'"
        unfolding run_append pre using r(2) by simp
      then show ?thesis using gen r(3) fb xv
        by (simp add: field_bits_Cons)
    qed
  qed
qed

lemma length_groups_of_8: "length (groups_of_8 xs) = (length xs + 7) div 8"
proof (induction xs rule: groups_of_8.induct)
  case (1 xs)
  show ?case
  proof (cases "xs = []")
    case True
    then show ?thesis by simp
  next
    case False
    then have "length (groups_of_8 xs) = Suc (length (groups_of_8 (drop 8 xs)))"
      by (subst groups_of_8.simps) simp
    also have "\<dots> = Suc ((length (drop 8 xs) + 7) div 8)" using 1 False by simp
    also have "\<dots> = (length xs + 7) div 8" using False by (cases xs) (simp_all, arith)
    finally show ?thesis .
  qed
qed

lemma encode_step:
  "(\<exists>e. \<forall>fs buf. encode_loop_stmts spec (f # fs) bi buf = Inl e) \<or>
   (\<exists>bi' X. (spec (domain f) \<noteq> ''bit'' \<longrightarrow> bi' = None) \<and>
      (\<forall>fs buf. encode_loop_stmts spec (f # fs) bi buf = encode_loop_stmts spec fs bi' (buf @ X)))"
proof (cases "spec (domain f) = ''bit''")
  case True
  show ?thesis
  proof (cases bi)
    case None
    have "\<forall>fs buf. encode_loop_stmts spec (f # fs) bi buf
            = encode_loop_stmts spec fs (Some 1)
                (buf @ [Assign ''bit_buffer'' (Lit 0), set_bit_stmt 0 (ruby_name f)])"
      unfolding None using step_none [of spec f, OF True] by blast
    then show ?thesis using True by blast
  next
    case (Some i)
    show ?thesis
    proof (cases "8 \<le> i")
      case True8: True
      have "\<forall>fs buf. encode_loop_stmts spec (f # fs) bi buf
            = encode_loop_stmts spec fs (Some 1)
                (buf @ [flush_stmt, Assign ''bit_buffer'' (Lit 0), set_bit_stmt 0 (ruby_name f)])"
        unfolding Some using step_full [of spec f, OF True True8] by blast
      then show ?thesis using True by blast
    next
      case False
      then have lt: "i < 8" by simp
      have "\<forall>fs buf. encode_loop_stmts spec (f # fs) bi buf
            = encode_loop_stmts spec fs (Some (i + 1)) (buf @ [set_bit_stmt i (ruby_name f)])"
        unfolding Some using step_part [of spec f, OF True lt] by blast
      then show ?thesis using True by blast
    qed
  qed
next
  case False
  show ?thesis
  proof (cases "genSingleEncode_stmts spec (ruby_name f) (domain f)")
    case (Inl e)
    have "\<forall>fs buf. encode_loop_stmts spec (f # fs) bi buf = Inl e"
      using step_other [of spec f, OF False] Inl by simp
    then show ?thesis by blast
  next
    case (Inr lines)
    have "\<forall>fs buf. encode_loop_stmts spec (f # fs) bi buf
            = encode_loop_stmts spec fs None (buf @ (finishBits_stmts bi [] @ lines))"
    proof (intro allI)
      fix fs buf
      have "finishBits_stmts bi buf @ lines = buf @ (finishBits_stmts bi [] @ lines)"
        using finishBits_stmts_append [of bi buf] by simp
      then show "encode_loop_stmts spec (f # fs) bi buf
            = encode_loop_stmts spec fs None (buf @ (finishBits_stmts bi [] @ lines))"
        using step_other [of spec f, OF False] Inr by simp
    qed
    then show ?thesis by blast
  qed
qed

lemma encode_split_after:
  "pre \<noteq> [] \<Longrightarrow> spec (domain (last pre)) \<noteq> ''bit'' \<Longrightarrow>
   encode_loop_stmts spec (pre @ rest) bi []
     = (case encode_loop_stmts spec pre bi [] of
          Inl e \<Rightarrow> Inl e
        | Inr a \<Rightarrow> (case encode_loop_stmts spec rest None [] of
                      Inl e \<Rightarrow> Inl e
                    | Inr b \<Rightarrow> Inr (a @ b)))"
proof (induction pre arbitrary: bi)
  case Nil
  then show ?case by simp
next
  case (Cons f pre)
  from encode_step [of spec f bi] show ?case
  proof (elim disjE exE conjE)
    fix e
    assume st: "\<forall>fs buf. encode_loop_stmts spec (f # fs) bi buf = Inl e"
    have "encode_loop_stmts spec (f # (pre @ rest)) bi [] = Inl e"
      using st by blast
    moreover have "encode_loop_stmts spec (f # pre) bi [] = Inl e"
      using st by blast
    ultimately show ?thesis by (simp del: encode_loop_stmts.simps)
  next
    fix bi' X
    assume nb: "spec (domain f) \<noteq> ''bit'' \<longrightarrow> bi' = None"
      and st: "\<forall>fs buf. encode_loop_stmts spec (f # fs) bi buf
                 = encode_loop_stmts spec fs bi' (buf @ X)"
    have whole: "encode_loop_stmts spec (f # (pre @ rest)) bi []
                   = encode_loop_stmts spec (pre @ rest) bi' X"
      using st [rule_format, of "pre @ rest" "[]"] by (simp del: encode_loop_stmts.simps)
    have part: "encode_loop_stmts spec (f # pre) bi [] = encode_loop_stmts spec pre bi' X"
      using st [rule_format, of pre "[]"] by (simp del: encode_loop_stmts.simps)
    show ?thesis
    proof (cases "pre = []")
      case True
      then have n: "bi' = None" using nb Cons.prems by simp
      have "encode_loop_stmts spec rest None X
              = (case encode_loop_stmts spec rest None [] of
                   Inl e \<Rightarrow> Inl e | Inr ss \<Rightarrow> Inr (X @ ss))"
        by (rule encode_loop_stmts_buffer)
      moreover have "encode_loop_stmts spec [] None X = Inr X"
        by (simp add: finishBits_stmts_def)
      ultimately show ?thesis
        using whole part True n by (simp del: encode_loop_stmts.simps)
    next
      case False
      then have l: "spec (domain (last pre)) \<noteq> ''bit''" using Cons.prems by simp
      have b1: "encode_loop_stmts spec (pre @ rest) bi' X
              = (case encode_loop_stmts spec (pre @ rest) bi' [] of
                   Inl e \<Rightarrow> Inl e | Inr ss \<Rightarrow> Inr (X @ ss))"
        by (rule encode_loop_stmts_buffer)
      have b2: "encode_loop_stmts spec pre bi' X
              = (case encode_loop_stmts spec pre bi' [] of
                   Inl e \<Rightarrow> Inl e | Inr ss \<Rightarrow> Inr (X @ ss))"
        by (rule encode_loop_stmts_buffer)
      have ih: "encode_loop_stmts spec (pre @ rest) bi' []
         = (case encode_loop_stmts spec pre bi' [] of
              Inl e \<Rightarrow> Inl e
            | Inr a \<Rightarrow> (case encode_loop_stmts spec rest None [] of
                          Inl e \<Rightarrow> Inl e
                        | Inr b \<Rightarrow> Inr (a @ b)))"
        by (rule Cons.IH [OF False l])
      have "encode_loop_stmts spec (f # pre @ rest) bi []
         = (case encode_loop_stmts spec (f # pre) bi [] of
              Inl e \<Rightarrow> Inl e
            | Inr a \<Rightarrow> (case encode_loop_stmts spec rest None [] of
                          Inl e \<Rightarrow> Inl e
                        | Inr b \<Rightarrow> Inr (a @ b)))"
        unfolding whole part b1 b2 ih
        by (simp split: sum.split)
      then show ?thesis by (simp del: encode_loop_stmts.simps)
    qed
  qed
qed

lemma encode_split_before:
  "post = [] \<or> spec (domain (hd post)) \<noteq> ''bit'' \<Longrightarrow>
   encode_loop_stmts spec (xs @ post) bi []
     = (case encode_loop_stmts spec xs bi [] of
          Inl e \<Rightarrow> Inl e
        | Inr a \<Rightarrow> (case encode_loop_stmts spec post None [] of
                      Inl e \<Rightarrow> Inl e
                    | Inr b \<Rightarrow> Inr (a @ b)))"
proof (induction xs arbitrary: bi)
  case Nil
  show ?case
  proof (cases post)
    case Nil
    then show ?thesis by (simp add: finishBits_stmts_def)
  next
    case (Cons g post')
    then have g: "spec (domain g) \<noteq> ''bit''" using Nil.prems by simp
    show ?thesis
    proof (cases "genSingleEncode_stmts spec (ruby_name g) (domain g)")
      case (Inl e)
      then show ?thesis using g Cons by (simp add: finishBits_stmts_def)
    next
      case (Inr lines)
      have b1: "encode_loop_stmts spec post' None (finishBits_stmts bi [] @ lines)
              = (case encode_loop_stmts spec post' None lines of
                   Inl e \<Rightarrow> Inl e | Inr ss \<Rightarrow> Inr (finishBits_stmts bi [] @ ss))"
        using encode_loop_stmts_buffer [of spec post' None "finishBits_stmts bi [] @ lines"]
          encode_loop_stmts_buffer [of spec post' None lines]
        by (simp split: sum.split)
      have w: "encode_loop_stmts spec (g # post') bi []
                 = encode_loop_stmts spec post' None (finishBits_stmts bi [] @ lines)"
        using step_other [of spec g, OF g] Inr by simp
      have n: "encode_loop_stmts spec (g # post') None []
                 = encode_loop_stmts spec post' None lines"
        using step_other [of spec g, OF g] Inr by (simp add: finishBits_stmts_def)
      have e: "encode_loop_stmts spec [] bi [] = Inr (finishBits_stmts bi [])" by simp
      show ?thesis
        unfolding Cons append_Nil w n e b1 by (simp split: sum.split)
    qed
  qed
next
  case (Cons f xs)
  from encode_step [of spec f bi] show ?case
  proof (elim disjE exE conjE)
    fix e
    assume st: "\<forall>fs buf. encode_loop_stmts spec (f # fs) bi buf = Inl e"
    have "encode_loop_stmts spec (f # (xs @ post)) bi [] = Inl e"
      using st by blast
    moreover have "encode_loop_stmts spec (f # xs) bi [] = Inl e"
      using st by blast
    ultimately show ?thesis by (simp del: encode_loop_stmts.simps)
  next
    fix bi' X
    assume st: "\<forall>fs buf. encode_loop_stmts spec (f # fs) bi buf
                 = encode_loop_stmts spec fs bi' (buf @ X)"
    have whole: "encode_loop_stmts spec (f # (xs @ post)) bi []
                   = encode_loop_stmts spec (xs @ post) bi' X"
      using st [rule_format, of "xs @ post" "[]"] by (simp del: encode_loop_stmts.simps)
    have part: "encode_loop_stmts spec (f # xs) bi [] = encode_loop_stmts spec xs bi' X"
      using st [rule_format, of xs "[]"] by (simp del: encode_loop_stmts.simps)
    have b1: "encode_loop_stmts spec (xs @ post) bi' X
              = (case encode_loop_stmts spec (xs @ post) bi' [] of
                   Inl e \<Rightarrow> Inl e | Inr ss \<Rightarrow> Inr (X @ ss))"
      by (rule encode_loop_stmts_buffer)
    have b2: "encode_loop_stmts spec xs bi' X
              = (case encode_loop_stmts spec xs bi' [] of
                   Inl e \<Rightarrow> Inl e | Inr ss \<Rightarrow> Inr (X @ ss))"
      by (rule encode_loop_stmts_buffer)
    have ih: "encode_loop_stmts spec (xs @ post) bi' []
         = (case encode_loop_stmts spec xs bi' [] of
              Inl e \<Rightarrow> Inl e
            | Inr a \<Rightarrow> (case encode_loop_stmts spec post None [] of
                          Inl e \<Rightarrow> Inl e
                        | Inr b \<Rightarrow> Inr (a @ b)))"
      by (rule Cons.IH [OF Cons.prems])
    have "encode_loop_stmts spec (f # xs @ post) bi []
         = (case encode_loop_stmts spec (f # xs) bi [] of
              Inl e \<Rightarrow> Inl e
            | Inr a \<Rightarrow> (case encode_loop_stmts spec post None [] of
                          Inl e \<Rightarrow> Inl e
                        | Inr b \<Rightarrow> Inr (a @ b)))"
      unfolding whole part b1 b2 ih
      by (simp split: sum.split)
    then show ?thesis by (simp del: encode_loop_stmts.simps)
  qed
qed

text \<open>
  C6. In a schema, take a run of bit fields that starts at the beginning or after a
  non-bit field and ends at the end or before a non-bit field; the names of its fields
  are variables of the method other than \<open>bit_buffer\<close> and \<open>pieces\<close>, and
  \<open>PACK_CACHE[:c]\<close> is the directive \<open>c\<close>. The generated encode lines of the schema are
  the lines of the fields before the run, then the lines of the run, then the lines of
  the fields after it. Once the lines before the run have run, the lines of the run
  append to \<open>pieces\<close> exactly the octets the specification describes, before any line
  of a later field: one octet for every eight fields and one for the remainder, each with
  the first field of its group in bit 0, and nothing for an empty run. The number of
  octets is the number of fields divided by 8, rounded up.
\<close>

theorem bit_run_in_schema:
  assumes c: "PACK_CACHE L ''c'' = ''c''"
    and bits: "\<forall>f\<in>set bits. spec (domain f) = ''bit'' \<and> ruby_name f \<in> dom env \<and>
           ruby_name f \<noteq> ''bit_buffer'' \<and> ruby_name f \<noteq> ''pieces''"
    and before: "pre = [] \<or> spec (domain (last pre)) \<noteq> ''bit''"
    and after: "post = [] \<or> spec (domain (hd post)) \<noteq> ''bit''"
    and a: "genEncodeMethodDefinition_stmts spec pre = Inr a"
    and b: "genEncodeMethodDefinition_stmts spec post = Inr b"
    and ran: "run L a env0 = Inr env"
    and p: "env ''pieces'' = Some (RArr ps)"
  shows "\<exists>r. genEncodeMethodDefinition_stmts spec bits = Inr r \<and>
           genEncodeMethodDefinition_stmts spec (pre @ bits @ post) = Inr (a @ r @ b) \<and>
           returned (run_generated L (Inr (a @ r)) env0) ''pieces''
             = Some (RArr (ps @ map (\<lambda>b. RStr [b]) (spec_bit_run_octets (field_bits env bits)))) \<and>
           length (spec_bit_run_octets (field_bits env bits)) = (length bits + 7) div 8"
proof -
  obtain r env' where r: "encode_loop_stmts spec bits None [] = Inr r" "run L r env = Inr env'"
    "env' ''pieces'' = Some (RArr (ps @ map (\<lambda>g. RStr [of_nat (bits_value g)])
                                  (groups_of_8 ([] @ field_bits env bits))))"
    using bit_run_loop [OF c, of bits spec env ps None "[]"] bits p by blast
  have a': "encode_loop_stmts spec pre None [] = Inr a"
    using a by (simp add: genEncodeMethodDefinition_stmts_def)
  have b': "encode_loop_stmts spec post None [] = Inr b"
    using b by (simp add: genEncodeMethodDefinition_stmts_def)
  have tail: "encode_loop_stmts spec (bits @ post) None [] = Inr (r @ b)"
    using encode_split_before [of post spec bits None] after r(1) b' by simp
  have whole: "encode_loop_stmts spec (pre @ bits @ post) None [] = Inr (a @ r @ b)"
  proof (cases "pre = []")
    case True
    then have "a = []" using a' by (simp add: finishBits_stmts_def)
    then show ?thesis using True tail by simp
  next
    case False
    then have l: "spec (domain (last pre)) \<noteq> ''bit''" using before by simp
    show ?thesis
      using encode_split_after [of pre spec "bits @ post" None] False l a' tail by simp
  qed
  have "run L (a @ r) env0 = Inr env'"
    unfolding run_append ran using r(2) by simp
  moreover have "length (field_bits env bits) = length bits" by (simp add: field_bits_def)
  ultimately show ?thesis using r(1,3) whole
    by (simp add: genEncodeMethodDefinition_stmts_def spec_bit_run_octets_def comp_def
          length_groups_of_8)
qed

text \<open>
  The example of the specification: ten fields true, false, true, ... alone in a schema
  give the octets \<open>0x55\<close> and \<open>0x01\<close>. A run of two true fields between two octet fields
  7 and 9, with one more true bit field after, gives the buffer 7, 3, 9, 1: the run is
  flushed when the octet field interrupts it.
\<close>

theorem bit_run_in_schema_witness:
  "returned (run_generated directive_lib
       (genEncodeMethodDefinition_stmts (\<lambda>d. d)
          [fld ''a'' ''bit'', fld ''b'' ''bit'', fld ''c'' ''bit'', fld ''d'' ''bit'',
           fld ''e'' ''bit'', fld ''f'' ''bit'', fld ''g'' ''bit'', fld ''h'' ''bit'',
           fld ''i'' ''bit'', fld ''j'' ''bit''])
       [''a'' \<mapsto> RBool True, ''b'' \<mapsto> RBool False, ''c'' \<mapsto> RBool True, ''d'' \<mapsto> RBool False,
        ''e'' \<mapsto> RBool True, ''f'' \<mapsto> RBool False, ''g'' \<mapsto> RBool True, ''h'' \<mapsto> RBool False,
        ''i'' \<mapsto> RBool True, ''j'' \<mapsto> RBool False, ''pieces'' \<mapsto> RArr []]) ''pieces''
     = Some (RArr [RStr [0x55], RStr [0x01]]) \<and>
   (\<exists>r. genEncodeMethodDefinition_stmts (\<lambda>d. d) [fld ''a'' ''bit'', fld ''b'' ''bit''] = Inr r \<and>
        genEncodeMethodDefinition_stmts (\<lambda>d. d)
          [fld ''x'' ''octet'', fld ''a'' ''bit'', fld ''b'' ''bit'', fld ''y'' ''octet'',
           fld ''c'' ''bit'']
          = Inr ([Push ''pieces'' (PackOne (Var ''x'') ''c'')] @ r @
                 [Push ''pieces'' (PackOne (Var ''y'') ''c''), Assign ''bit_buffer'' (Lit 0),
                  set_bit_stmt 0 ''c'', flush_stmt]) \<and>
        returned (run_generated directive_lib
            (Inr ([Push ''pieces'' (PackOne (Var ''x'') ''c'')] @ r))
            [''x'' \<mapsto> RInt 7, ''a'' \<mapsto> RBool True, ''b'' \<mapsto> RBool True, ''y'' \<mapsto> RInt 9,
             ''c'' \<mapsto> RBool True, ''pieces'' \<mapsto> RArr []]) ''pieces''
          = Some (RArr [RStr [7], RStr [3]])) \<and>
   buffer_of (encode_method directive_lib (\<lambda>d. d)
       [fld ''x'' ''octet'', fld ''a'' ''bit'', fld ''b'' ''bit'', fld ''y'' ''octet'',
        fld ''c'' ''bit'']
       [''x'' \<mapsto> RInt 7, ''a'' \<mapsto> RBool True, ''b'' \<mapsto> RBool True, ''y'' \<mapsto> RInt 9,
        ''c'' \<mapsto> RBool True]) = Some [7, 3, 9, 1]"
proof -
  let ?L = directive_lib
  let ?sp = "\<lambda>d::string. d"
  have c: "PACK_CACHE ?L ''c'' = ''c''" by (simp add: directive_lib_def)
  have nil: "genEncodeMethodDefinition_stmts ?sp [] = Inr []" by code_simp
  let ?fs = "[fld ''a'' ''bit'', fld ''b'' ''bit'', fld ''c'' ''bit'', fld ''d'' ''bit'',
           fld ''e'' ''bit'', fld ''f'' ''bit'', fld ''g'' ''bit'', fld ''h'' ''bit'',
           fld ''i'' ''bit'', fld ''j'' ''bit'']"
  let ?env = "[''a'' \<mapsto> RBool True, ''b'' \<mapsto> RBool False, ''c'' \<mapsto> RBool True, ''d'' \<mapsto> RBool False,
        ''e'' \<mapsto> RBool True, ''f'' \<mapsto> RBool False, ''g'' \<mapsto> RBool True, ''h'' \<mapsto> RBool False,
        ''i'' \<mapsto> RBool True, ''j'' \<mapsto> RBool False, ''pieces'' \<mapsto> RArr []]"
  have h: "\<forall>f\<in>set ?fs. ?sp (domain f) = ''bit'' \<and> ruby_name f \<in> dom ?env \<and>
           ruby_name f \<noteq> ''bit_buffer'' \<and> ruby_name f \<noteq> ''pieces''"
    by (simp add: fld_def)
  have e: "([]::field list) = [] \<or> ?sp (domain (last [])) \<noteq> ''bit''" by simp
  have e': "([]::field list) = [] \<or> ?sp (domain (hd [])) \<noteq> ''bit''" by simp
  have r0: "run ?L [] ?env = Inr ?env" by (rule run.simps(1))
  have p: "?env ''pieces'' = Some (RArr [])" by simp
  have v: "spec_bit_run_octets (field_bits ?env ?fs) = [0x55, 0x01]" by code_simp
  obtain r where r: "genEncodeMethodDefinition_stmts ?sp ?fs = Inr r"
    "returned (run_generated ?L (Inr ([] @ r)) ?env) ''pieces''
       = Some (RArr ([] @ map (\<lambda>b. RStr [b]) (spec_bit_run_octets (field_bits ?env ?fs))))"
    using bit_run_in_schema [OF c h e e' nil nil r0 p] by blast
  have one: "returned (run_generated ?L (genEncodeMethodDefinition_stmts ?sp ?fs) ?env) ''pieces''
     = Some (RArr [RStr [0x55], RStr [0x01]])"
    using r(2) unfolding r(1) v by (simp only: append_Nil list.map)
  let ?pre = "[fld ''x'' ''octet'']"
  let ?bits = "[fld ''a'' ''bit'', fld ''b'' ''bit'']"
  let ?post = "[fld ''y'' ''octet'', fld ''c'' ''bit'']"
  let ?A = "[Push ''pieces'' (PackOne (Var ''x'') ''c'')]"
  let ?B = "[Push ''pieces'' (PackOne (Var ''y'') ''c''), Assign ''bit_buffer'' (Lit 0),
                  set_bit_stmt 0 ''c'', flush_stmt]"
  let ?env0 = "[''x'' \<mapsto> RInt 7, ''a'' \<mapsto> RBool True, ''b'' \<mapsto> RBool True, ''y'' \<mapsto> RInt 9,
             ''c'' \<mapsto> RBool True, ''pieces'' \<mapsto> RArr []]"
  let ?env1 = "?env0(''pieces'' \<mapsto> RArr [RStr [7]])"
  have h2: "\<forall>f\<in>set ?bits. ?sp (domain f) = ''bit'' \<and> ruby_name f \<in> dom ?env1 \<and>
           ruby_name f \<noteq> ''bit_buffer'' \<and> ruby_name f \<noteq> ''pieces''"
    by (simp add: fld_def)
  have b2: "?pre = [] \<or> ?sp (domain (last ?pre)) \<noteq> ''bit''" by (simp add: fld_def)
  have a2: "?post = [] \<or> ?sp (domain (hd ?post)) \<noteq> ''bit''" by (simp add: fld_def)
  have ga: "genEncodeMethodDefinition_stmts ?sp ?pre = Inr ?A" by code_simp
  have gb: "genEncodeMethodDefinition_stmts ?sp ?post = Inr ?B" by code_simp
  have ran: "run ?L ?A ?env0 = Inr ?env1"
    using to_bytes_1 [of 7] by (simp add: directive_lib_def pack_def)
  have p2: "?env1 ''pieces'' = Some (RArr [RStr [7]])" by simp
  have v2: "spec_bit_run_octets (field_bits ?env1 ?bits) = [3]" by code_simp
  have two: "\<exists>r. genEncodeMethodDefinition_stmts ?sp ?bits = Inr r \<and>
        genEncodeMethodDefinition_stmts ?sp (?pre @ ?bits @ ?post) = Inr (?A @ r @ ?B) \<and>
        returned (run_generated ?L (Inr (?A @ r)) ?env0) ''pieces''
          = Some (RArr ([RStr [7]] @ map (\<lambda>b. RStr [b])
               (spec_bit_run_octets (field_bits ?env1 ?bits))))"
    using bit_run_in_schema [OF c h2 b2 a2 ga gb ran p2] by blast
  have three: "buffer_of (encode_method ?L ?sp (?pre @ ?bits @ ?post)
       [''x'' \<mapsto> RInt 7, ''a'' \<mapsto> RBool True, ''b'' \<mapsto> RBool True, ''y'' \<mapsto> RInt 9,
        ''c'' \<mapsto> RBool True]) = Some [7, 3, 9, 1]"
    by code_simp
  show ?thesis
    using one two three unfolding v2 by (simp only: append.simps list.map)
qed

section \<open>The cursor after a table field, for any library\<close>

text \<open>
  Whatever \<open>Table.length\<close> and \<open>Table.decode\<close> compute, the two lines generated for a
  table field, when they run to the end, leave \<open>offset\<close> where it was.
\<close>

lemma exec_Assign_result:
  "exec L (Assign x e) env = Inr env' \<Longrightarrow> \<exists>v. env' = env(x \<mapsto> v)"
  by (auto simp add: assign_def split: sum.splits)

lemma table_lines_keep_offset:
  assumes "spec (domain f) = ''table''" and "ruby_name f \<noteq> ''offset''"
    and "run_generated L (genSingleDecode_stmts spec f) env = Returns env'"
  shows "env' ''offset'' = env ''offset''"
proof -
  obtain e1 e2 where g: "genSingleDecode_stmts spec f
      = Inr [Assign ''table_length'' e1, Assign (ruby_name f) e2]"
    using assms(1) by (simp add: genSingleDecode_stmts_def)
  have "run L [Assign ''table_length'' e1, Assign (ruby_name f) e2] env = Inr env'"
    using assms(3) unfolding g by (simp del: exec.simps run.simps split: sum.splits)
  then obtain env1 where s: "exec L (Assign ''table_length'' e1) env = Inr env1"
    "exec L (Assign (ruby_name f) e2) env1 = Inr env'"
    by (auto simp del: exec.simps split: sum.splits)
  from exec_Assign_result [OF s(1)] exec_Assign_result [OF s(2)]
  obtain v1 v2 where "env' = env(''table_length'' \<mapsto> v1, ruby_name f \<mapsto> v2)" by blast
  then show ?thesis using assms(2) by simp
qed

end
